theory Spec2Isabelle
  imports Complex_Main "HOL-Library.Char_ord" "HOL-Library.List_Lexorder" "HOL-Library.Log_Nat"
begin

section \<open>Python values used by DBLP.py\<close>

text \<open>
  The script works on Python dictionaries, lists, strings and numbers. A dictionary is
  modelled as an association list with distinct keys in insertion order (the order a
  Python \<open>dict\<close> keeps), a Python \<open>int\<close> as \<open>int\<close>, and an exception as a value of
  \<open>py_exception\<close> on the left of a sum.

  A \<open>str\<close> that holds text of a page (a title, the names of the authors, the words
  taken from titles) is modelled as the list of its Unicode code points, \<open>ustring\<close>. The
  strings that the script builds from its own literals and from numbers or only compares
  with them (tag and attribute names, attribute values, addresses, years, conference
  names) are modelled as \<open>string\<close>; \<open>ustr\<close> gives the code points of such a string.
\<close>

type_synonym ustring = "int list"

definition ustr :: "string \<Rightarrow> ustring" where
  "ustr s = map of_char s"

datatype py_exception =
  KeyError | ValueError | OverflowError | ZeroDivisionError | ConnectionError | HTTPError
  | FeatureNotFound | RenderException

type_synonym ('k, 'v) dict = "('k \<times> 'v) list"

text \<open>\<open>d[k] = v\<close>: an existing key keeps its position, a new key is appended.\<close>

fun dict_set :: "'k \<Rightarrow> 'v \<Rightarrow> ('k, 'v) dict \<Rightarrow> ('k, 'v) dict" where
  "dict_set k v [] = [(k, v)]"
| "dict_set k v ((k', v') # d) = (if k' = k then (k, v) # d else (k', v') # dict_set k v d)"

text \<open>\<open>d.get(k, default)\<close>.\<close>

definition dict_get :: "('k, 'v) dict \<Rightarrow> 'k \<Rightarrow> 'v \<Rightarrow> 'v" where
  "dict_get d k dflt = (case map_of d k of None \<Rightarrow> dflt | Some v \<Rightarrow> v)"

text \<open>\<open>d[k]\<close>, which raises \<open>KeyError\<close> on a missing key.\<close>

definition dict_item :: "('k, 'v) dict \<Rightarrow> 'k \<Rightarrow> py_exception + 'v" where
  "dict_item d k = (case map_of d k of None \<Rightarrow> Inl KeyError | Some v \<Rightarrow> Inr v)"

text \<open>\<open>[f(x) for x in xs]\<close> where \<open>f\<close> may raise: the first exception ends the comprehension.\<close>

fun map_raise :: "('a \<Rightarrow> py_exception + 'b) \<Rightarrow> 'a list \<Rightarrow> py_exception + 'b list" where
  "map_raise f [] = Inr []"
| "map_raise f (x # xs) =
     (case f x of
        Inl e \<Rightarrow> Inl e
      | Inr y \<Rightarrow> (case map_raise f xs of Inl e \<Rightarrow> Inl e | Inr ys \<Rightarrow> Inr (y # ys)))"

section \<open>Paper records\<close>

text \<open>The dictionary \<open>paper\<close> built by \<open>get_paper_info\<close>, with its five fixed keys.\<close>

record paper =
  title :: ustring
  authors :: ustring
  conference :: string
  year :: string
  link :: string

section \<open>Aggregation: \<open>plot_paper_trend\<close>\<close>

text \<open>
  The counting loop of \<open>plot_paper_trend\<close>:
  \<^verbatim>\<open>for paper in papers: year_count[year] = year_count.get(year, 0) + 1\<close>.
\<close>

fun count_years :: "(string, int) dict \<Rightarrow> paper list \<Rightarrow> (string, int) dict" where
  "count_years year_count [] = year_count"
| "count_years year_count (p # papers) =
     count_years (dict_set (year p) (dict_get year_count (year p) 0 + 1) year_count) papers"

text \<open>
  Drawing and saving the chart is the work of matplotlib: the model takes its outcome as
  a parameter \<open>render\<close> of the sorted years, their counts and the conference name.
\<close>

datatype render_outcome = Rendered | RenderRaised py_exception

definition plot_paper_trend ::
  "(string list \<Rightarrow> int list \<Rightarrow> string \<Rightarrow> render_outcome) \<Rightarrow> paper list \<Rightarrow> string
     \<Rightarrow> py_exception + (string, int) dict" where
  "plot_paper_trend render papers conf_name =
     (if papers = [] then Inr []
      else
        let year_count = count_years [] papers;
            years = sort (map fst year_count)
        in (case map_raise (dict_item year_count) years of
              Inl e \<Rightarrow> Inl e
            | Inr counts \<Rightarrow>
                (case render years counts conf_name of
                   Rendered \<Rightarrow> Inr year_count
                 | RenderRaised e \<Rightarrow> Inr year_count)))"

text \<open>The sum of all counts of a year-count map.\<close>

definition total_count :: "(string, int) dict \<Rightarrow> int" where
  "total_count d = sum_list (map snd d)"

definition example_paper :: "string \<Rightarrow> paper" where
  "example_paper y =
     \<lparr>title = ustr ''Deep Learning'', authors = ustr ''A. Author'', conference = ''AAAI'',
      year = y, link = []\<rparr>"

section \<open>Strings\<close>

text \<open>
  The characters on which \<open>str.isspace\<close> holds, which are also the ones \<open>str.split()\<close>,
  \<open>str.strip()\<close> and the pattern \<open>\s\<close> take as white space: in ASCII the tab, line feed,
  vertical tab, form feed, carriage return, the four separators \<open>0x1C\<close> to \<open>0x1F\<close> and the
  space; beyond ASCII the next-line character \<open>U+0085\<close>, the no-break space \<open>U+00A0\<close>,
  \<open>U+1680\<close>, the spaces \<open>U+2000\<close> to \<open>U+200A\<close>, the line and paragraph separators \<open>U+2028\<close>
  and \<open>U+2029\<close>, \<open>U+202F\<close>, \<open>U+205F\<close> and the ideographic space \<open>U+3000\<close>.
\<close>

definition is_space :: "int \<Rightarrow> bool" where
  "is_space c \<longleftrightarrow>
     c \<in> set [0x09, 0x0A, 0x0B, 0x0C, 0x0D, 0x1C, 0x1D, 0x1E, 0x1F, 0x20, 0x85, 0xA0,
              0x1680, 0x2000, 0x2001, 0x2002, 0x2003, 0x2004, 0x2005, 0x2006, 0x2007,
              0x2008, 0x2009, 0x200A, 0x2028, 0x2029, 0x202F, 0x205F, 0x3000]"

definition ascii_uppercase :: string where
  "ascii_uppercase = ''ABCDEFGHIJKLMNOPQRSTUVWXYZ''"

definition ascii_lowercase :: string where
  "ascii_lowercase = ''abcdefghijklmnopqrstuvwxyz''"

definition digits :: string where
  "digits = ''0123456789''"

text \<open>
  Which characters beyond ASCII are letters or digits, and how a string with such
  characters is lowercased, is laid down in the tables of the Unicode character database
  that the interpreter carries. The model takes them as a parameter: \<open>uni_alnum\<close> stands
  for \<open>str.isalnum\<close> on a character beyond ASCII, \<open>uni_lower\<close> for \<open>str.lower\<close> on a string
  that holds a character beyond ASCII. On ASCII both are written out.
\<close>

record unicode_tables =
  uni_alnum :: "int \<Rightarrow> bool"
  uni_lower :: "ustring \<Rightarrow> ustring"

definition is_ascii :: "ustring \<Rightarrow> bool" where
  "is_ascii s = list_all (\<lambda>c. c < 128) s"

text \<open>The pattern \<open>\w\<close>: a letter, a digit or the underscore.\<close>

definition is_word_char :: "unicode_tables \<Rightarrow> int \<Rightarrow> bool" where
  "is_word_char ucd c \<longleftrightarrow>
     (if c < 128 then c \<in> set (ustr (ascii_uppercase @ ascii_lowercase @ digits @ ''_''))
      else uni_alnum ucd c)"

definition lower_char :: "int \<Rightarrow> int" where
  "lower_char c =
     (case map_of (zip (ustr ascii_uppercase) (ustr ascii_lowercase)) c of
        None \<Rightarrow> c
      | Some l \<Rightarrow> l)"

text \<open>\<open>s.lower()\<close>.\<close>

definition py_lower :: "unicode_tables \<Rightarrow> ustring \<Rightarrow> ustring" where
  "py_lower ucd s = (if is_ascii s then map lower_char s else uni_lower ucd s)"

text \<open>\<open>re.sub(r'[^\w\s]', ' ', s)\<close>: every character that is neither a word character nor
  white space becomes a space.\<close>

definition sub_non_word_space :: "unicode_tables \<Rightarrow> ustring \<Rightarrow> ustring" where
  "sub_non_word_space ucd s = map (\<lambda>c. if is_word_char ucd c \<or> is_space c then c else 0x20) s"

text \<open>\<open>s.split()\<close>: the maximal runs of characters that are not white space. The first
  argument is the run read so far.\<close>

fun split_runs :: "ustring \<Rightarrow> ustring \<Rightarrow> ustring list" where
  "split_runs run [] = (if run = [] then [] else [run])"
| "split_runs run (c # cs) =
     (if is_space c then (if run = [] then split_runs [] cs else run # split_runs [] cs)
      else split_runs (run @ [c]) cs)"

definition py_split :: "ustring \<Rightarrow> ustring list" where
  "py_split s = split_runs [] s"

text \<open>\<open>s.strip()\<close>.\<close>

definition py_strip :: "ustring \<Rightarrow> ustring" where
  "py_strip s = rev (dropWhile is_space (rev (dropWhile is_space s)))"

text \<open>\<open>sep.join(xs)\<close>.\<close>

fun py_join :: "'a list \<Rightarrow> 'a list list \<Rightarrow> 'a list" where
  "py_join sep [] = []"
| "py_join sep [x] = x"
| "py_join sep (x # y # ys) = x @ sep @ py_join sep (y # ys)"

text \<open>\<open>sub in s\<close> on strings: \<open>sub\<close> occurs in \<open>s\<close> as a contiguous block.\<close>

fun py_in :: "string \<Rightarrow> string \<Rightarrow> bool" where
  "py_in sub [] \<longleftrightarrow> sub = []"
| "py_in sub (c # cs) \<longleftrightarrow> take (length sub) (c # cs) = sub \<or> py_in sub cs"

section \<open>Keyword analysis: \<open>extract_keywords\<close>\<close>

definition STOP_WORDS :: "ustring list" where
  "STOP_WORDS = map ustr
     [''a'', ''an'', ''the'', ''and'', ''or'', ''but'', ''if'', ''because'', ''as'', ''what'',
      ''which'', ''this'', ''that'', ''these'', ''those'', ''then'', ''just'', ''so'', ''than'',
      ''such'', ''both'', ''through'', ''about'', ''for'', ''is'', ''of'', ''while'', ''during'',
      ''to'', ''from'', ''in'', ''on'', ''by'', ''with'', ''without'', ''at'', ''between'']"

text \<open>\<open>Counter(words)\<close>: each word with the number of its occurrences, in the order of the
  first occurrences.\<close>

fun counter :: "(ustring, int) dict \<Rightarrow> ustring list \<Rightarrow> (ustring, int) dict" where
  "counter word_freq [] = word_freq"
| "counter word_freq (word # words) =
     counter (dict_set word (dict_get word_freq word 0 + 1) word_freq) words"

definition extract_keywords :: "unicode_tables \<Rightarrow> paper list \<Rightarrow> (ustring, int) dict" where
  "extract_keywords ucd papers =
     (if papers = [] then []
      else
        let all_titles = py_join (ustr '' '') (map title papers);
            all_titles = py_lower ucd all_titles;
            all_titles = sub_non_word_space ucd all_titles;
            words = py_split all_titles;
            words = filter (\<lambda>word. word \<notin> set STOP_WORDS \<and> 2 < length word) words
        in counter [] words)"

definition titled_paper :: "ustring \<Rightarrow> paper" where
  "titled_paper t =
     \<lparr>title = t, authors = ustr ''A. Author'', conference = ''AAAI'', year = ''2021'', link = []\<rparr>"

text \<open>\<open>str(n)\<close> for an integer: its decimal digits, after a minus sign when it is negative.\<close>

fun str_nat :: "nat \<Rightarrow> string" where
  "str_nat n = (if n < 10 then [digits ! n] else str_nat (n div 10) @ [digits ! (n mod 10)])"

declare str_nat.simps [simp del]

definition py_str :: "int \<Rightarrow> string" where
  "py_str i = (if i < 0 then CHR ''-'' # str_nat (nat (- i)) else str_nat (nat i))"

section \<open>The parsed page\<close>

text \<open>
  \<open>BeautifulSoup(resp.text, 'html.parser')\<close> turns the page into a tree of tags and
  strings. The model starts from that tree: a node is a string of text or a tag with its
  name, its attributes and its children. The functions below are the parts of the library's
  search interface that \<open>get_paper_info\<close> calls.
\<close>

datatype node = Text ustring | Element string "(string \<times> string) list" "node list"

text \<open>The nodes below a node, in document order (what \<open>find_all\<close> walks through).\<close>

fun descendants :: "node \<Rightarrow> node list" where
  "descendants (Text s) = []"
| "descendants (Element tag attrs cs) = concat (map (\<lambda>c. c # descendants c) cs)"

text \<open>\<open>tag.text\<close>: the strings below the tag, concatenated.\<close>

fun get_text :: "node \<Rightarrow> ustring" where
  "get_text (Text s) = s"
| "get_text (Element tag attrs cs) = concat (map get_text cs)"

fun tag_name :: "node \<Rightarrow> string option" where
  "tag_name (Text s) = None"
| "tag_name (Element tag attrs cs) = Some tag"

text \<open>\<open>tag.get(key)\<close>.\<close>

fun get_attr :: "node \<Rightarrow> string \<Rightarrow> string option" where
  "get_attr (Text s) key = None"
| "get_attr (Element tag attrs cs) key = map_of attrs key"

text \<open>\<open>tag[key]\<close>, which raises \<open>KeyError\<close> when the tag has no such attribute.\<close>

definition tag_item :: "node \<Rightarrow> string \<Rightarrow> py_exception + string" where
  "tag_item n key = (case get_attr n key of None \<Rightarrow> Inl KeyError | Some v \<Rightarrow> Inr v)"

text \<open>
  The filter \<open>class_=cls\<close>: \<open>class\<close> is a multi-valued attribute, kept as the list of its
  white-space separated values; the filter holds when one of the values is \<open>cls\<close> or the
  values joined by single spaces are \<open>cls\<close>.
\<close>

definition matches_class :: "string \<Rightarrow> node \<Rightarrow> bool" where
  "matches_class cls n =
     (case get_attr n ''class'' of
        None \<Rightarrow> False
      | Some v \<Rightarrow>
          ustr cls \<in> set (py_split (ustr v))
          \<or> py_join (ustr '' '') (py_split (ustr v)) = ustr cls)"

text \<open>The filter \<open>key=v\<close> on a single-valued attribute such as \<open>itemprop\<close>.\<close>

definition matches_attr :: "string \<Rightarrow> string \<Rightarrow> node \<Rightarrow> bool" where
  "matches_attr key v n \<longleftrightarrow> get_attr n key = Some v"

text \<open>The filter \<open>href=lambda href: href and sub in href\<close>.\<close>

definition href_contains :: "string \<Rightarrow> node \<Rightarrow> bool" where
  "href_contains sub n =
     (case get_attr n ''href'' of None \<Rightarrow> False | Some href \<Rightarrow> href \<noteq> [] \<and> py_in sub href)"

definition find_all :: "node \<Rightarrow> string \<Rightarrow> (node \<Rightarrow> bool) \<Rightarrow> node list" where
  "find_all tree tag p = filter (\<lambda>n. tag_name n = Some tag \<and> p n) (descendants tree)"

text \<open>\<open>find\<close>: the first result of \<open>find_all\<close>, or \<open>None\<close>.\<close>

definition find_first :: "node \<Rightarrow> string \<Rightarrow> (node \<Rightarrow> bool) \<Rightarrow> node option" where
  "find_first tree tag p = (case find_all tree tag p of [] \<Rightarrow> None | n # ns \<Rightarrow> Some n)"

section \<open>Fetching and extraction: \<open>get_paper_info\<close>\<close>

record conference_config =
  name :: string
  url_pattern :: string
  start_year :: int
  end_year :: int

definition CONFERENCE_CONFIGS :: "(string, conference_config) dict" where
  "CONFERENCE_CONFIGS =
     [(''aaai'', \<lparr>name = ''AAAI'', url_pattern = ''https://dblp.org/db/conf/aaai/aaai{year}.html'',
                 start_year = 2020, end_year = 2025\<rparr>),
      (''cvpr'', \<lparr>name = ''CVPR'', url_pattern = ''https://dblp.org/db/conf/cvpr/cvpr{year}.html'',
                 start_year = 2020, end_year = 2024\<rparr>),
      (''iccv'', \<lparr>name = ''ICCV'', url_pattern = ''https://dblp.org/db/conf/iccv/iccv{year}.html'',
                 start_year = 2019, end_year = 2023\<rparr>)]"

text \<open>\<open>url_pattern.format(year=y)\<close>: each field \<open>{year}\<close> of the pattern becomes \<open>str(y)\<close>.\<close>

fun format_year :: "string \<Rightarrow> int \<Rightarrow> string" where
  "format_year [] y = []"
| "format_year (c # cs) y =
     (if take 6 (c # cs) = ''{year}'' then py_str y @ format_year (drop 5 cs) y
      else c # format_year cs y)"

text \<open>The two sentinel strings of the source, by their code points.\<close>

definition unknown_title :: ustring where
  "unknown_title = [0x672A, 0x77E5, 0x6807, 0x9898]"

definition unknown_authors :: ustring where
  "unknown_authors = [0x672A, 0x77E5, 0x4F5C, 0x8005]"

text \<open>The title of an entry: the stripped text of its first \<open>span\<close> of class \<open>title\<close>.\<close>

definition entry_title :: "node \<Rightarrow> ustring" where
  "entry_title entry =
     (case find_first entry ''span'' (matches_class ''title'') of
        Some title_tag \<Rightarrow> py_strip (get_text title_tag)
      | None \<Rightarrow> unknown_title)"

text \<open>The loop over the author tags: a tag without a name tag adds nothing.\<close>

definition author_names :: "node \<Rightarrow> ustring list" where
  "author_names entry =
     concat (map (\<lambda>author_tag.
        case find_first author_tag ''span'' (matches_attr ''itemprop'' ''name'') of
          Some name_tag \<Rightarrow> [py_strip (get_text name_tag)]
        | None \<Rightarrow> [])
      (find_all entry ''span'' (matches_attr ''itemprop'' ''author'')))"

definition entry_authors :: "node \<Rightarrow> ustring" where
  "entry_authors entry =
     (let authors = author_names entry
      in if authors \<noteq> [] then py_join (ustr ''; '') authors else unknown_authors)"

text \<open>The link of an entry: lines 134 to 142 of the source.\<close>

definition select_link :: "node \<Rightarrow> py_exception + string" where
  "select_link entry =
     (case find_first entry ''a'' (href_contains ''doi.org'') of
        Some doi_link \<Rightarrow> tag_item doi_link ''href''
      | None \<Rightarrow>
          (case find_first entry ''a'' (href_contains ''dblp.org/rec/'') of
             Some details_link \<Rightarrow> tag_item details_link ''href''
           | None \<Rightarrow> Inr []))"

text \<open>The body of the loop over the entries.\<close>

definition paper_of_entry :: "conference_config \<Rightarrow> int \<Rightarrow> node \<Rightarrow> py_exception + paper" where
  "paper_of_entry conf_config y entry =
     (case select_link entry of
        Inl e \<Rightarrow> Inl e
      | Inr l \<Rightarrow>
          Inr \<lparr>title = entry_title entry, authors = entry_authors entry,
               conference = name conf_config, year = py_str y, link = l\<rparr>)"

text \<open>The extraction from the parsed page: lines 104 to 147 of the source.\<close>

definition extract_papers :: "conference_config \<Rightarrow> int \<Rightarrow> node \<Rightarrow> py_exception + paper list" where
  "extract_papers conf_config y soup =
     (let entries = find_all soup ''li'' (matches_class ''entry inproceedings'')
      in if entries = [] then Inr [] else map_raise (paper_of_entry conf_config y) entries)"

text \<open>
  The network and the parser are the environment of the script: \<open>http_get\<close> stands for
  \<open>requests.get\<close> with the fixed headers and timeout, \<open>html_parser\<close> for the construction
  of the \<open>BeautifulSoup\<close> object. Either may raise.
\<close>

record response =
  status_code :: nat
  resp_text :: string

text \<open>\<open>resp.raise_for_status()\<close>.\<close>

definition raise_for_status :: "response \<Rightarrow> py_exception + unit" where
  "raise_for_status resp =
     (if 400 \<le> status_code resp \<and> status_code resp < 600 then Inl HTTPError else Inr ())"

text \<open>The body of the \<open>try\<close> block of \<open>get_paper_info\<close>.\<close>

definition fetch_papers ::
  "(string \<Rightarrow> py_exception + response) \<Rightarrow> (string \<Rightarrow> py_exception + node)
     \<Rightarrow> conference_config \<Rightarrow> int \<Rightarrow> string \<Rightarrow> py_exception + paper list" where
  "fetch_papers http_get html_parser conf_config y url =
     (case http_get url of
        Inl e \<Rightarrow> Inl e
      | Inr resp \<Rightarrow>
          (case raise_for_status resp of
             Inl e \<Rightarrow> Inl e
           | Inr u \<Rightarrow>
               (case html_parser (resp_text resp) of
                  Inl e \<Rightarrow> Inl e
                | Inr soup \<Rightarrow> extract_papers conf_config y soup)))"

text \<open>
  \<open>get_paper_info\<close>: the lookup of the configuration is outside the \<open>try\<close> block, so an
  unknown conference key raises \<open>KeyError\<close>; every exception of the block is caught and
  answered by the empty list.
\<close>

definition get_paper_info ::
  "(string \<Rightarrow> py_exception + response) \<Rightarrow> (string \<Rightarrow> py_exception + node)
     \<Rightarrow> string \<Rightarrow> int \<Rightarrow> py_exception + paper list" where
  "get_paper_info http_get html_parser conf_key y =
     (case dict_item CONFERENCE_CONFIGS conf_key of
        Inl e \<Rightarrow> Inl e
      | Inr conf_config \<Rightarrow>
          let url = format_year (url_pattern conf_config) y
          in (case fetch_papers http_get html_parser conf_config y url of
                Inl e \<Rightarrow> Inr []
              | Inr papers \<Rightarrow> Inr papers))"

text \<open>
  An entry in which a title and an author are present as tags: it has a title tag, and an
  author tag with a name tag.
\<close>

definition has_title_and_author :: "node \<Rightarrow> bool" where
  "has_title_and_author entry \<longleftrightarrow>
     find_first entry ''span'' (matches_class ''title'') \<noteq> None
     \<and> list_ex (\<lambda>author_tag.
          find_first author_tag ''span'' (matches_attr ''itemprop'' ''name'') \<noteq> None)
        (find_all entry ''span'' (matches_attr ''itemprop'' ''author''))"

text \<open>An entry with a title and at least one author: the title tag and the name tag of
  some author hold a character that is not white space.\<close>

definition has_text :: "node \<Rightarrow> bool" where
  "has_text n = list_ex (\<lambda>c. \<not> is_space c) (get_text n)"

definition well_formed_entry :: "node \<Rightarrow> bool" where
  "well_formed_entry entry \<longleftrightarrow>
     (case find_first entry ''span'' (matches_class ''title'') of
        None \<Rightarrow> False
      | Some title_tag \<Rightarrow> has_text title_tag)
     \<and> list_ex (\<lambda>author_tag.
          case find_first author_tag ''span'' (matches_attr ''itemprop'' ''name'') of
            None \<Rightarrow> False
          | Some name_tag \<Rightarrow> has_text name_tag)
        (find_all entry ''span'' (matches_attr ''itemprop'' ''author''))"

text \<open>A link of a style: an \<open>a\<close> tag with an \<open>href\<close> in which the marker of the style
  occurs. An entry holds such a link when one is among the nodes below it.\<close>

definition is_link :: "string \<Rightarrow> node \<Rightarrow> bool" where
  "is_link marker a \<longleftrightarrow>
     tag_name a = Some ''a''
     \<and> (case get_attr a ''href'' of None \<Rightarrow> False | Some href \<Rightarrow> py_in marker href)"

definition has_link :: "string \<Rightarrow> node \<Rightarrow> bool" where
  "has_link marker entry = list_ex (is_link marker) (descendants entry)"

definition example_entry :: "string list \<Rightarrow> node" where
  "example_entry hrefs =
     Element ''li'' [(''class'', ''entry inproceedings''), (''id'', ''conf/aaai/X20'')]
       ([Element ''cite'' [(''class'', ''data tts-content'')]
          [Element ''span'' [(''itemprop'', ''author'')]
             [Element ''a'' [(''href'', ''https://dblp.org/pid/01/1'')]
                [Element ''span'' [(''itemprop'', ''name'')] [Text (ustr ''Ada Lovelace'')]]],
           Text (ustr '', ''),
           Element ''span'' [(''itemprop'', ''author'')]
             [Element ''span'' [(''itemprop'', ''name'')] [Text (ustr '' Alan Turing '')]],
           Text (ustr '':''),
           Element ''span'' [(''class'', ''title''), (''itemprop'', ''name'')]
             [Text (ustr ''Deep Learning for X.'')]]]
        @ map (\<lambda>h. Element ''a'' [(''href'', h)] []) hrefs)"

text \<open>An entry whose title tag holds a space and a no-break space only.\<close>

definition blank_title_entry :: node where
  "blank_title_entry =
     Element ''li'' [(''class'', ''entry inproceedings'')]
       [Element ''cite'' [(''class'', ''data tts-content'')]
          [Element ''span'' [(''itemprop'', ''author'')]
             [Element ''span'' [(''itemprop'', ''name'')] [Text (ustr ''Ada Lovelace'')]],
           Text (ustr '':''),
           Element ''span'' [(''class'', ''title''), (''itemprop'', ''name'')]
             [Text [0x20, 0xA0]]]]"

definition example_page :: "node list \<Rightarrow> node" where
  "example_page entries = Element ''[document]'' [] [Element ''ul'' [] entries]"

definition aaai_config :: conference_config where
  "aaai_config =
     \<lparr>name = ''AAAI'', url_pattern = ''https://dblp.org/db/conf/aaai/aaai{year}.html'',
      start_year = 2020, end_year = 2025\<rparr>"


section \<open>Forecaster\<close>

subsection \<open>Raising computations in sequence\<close>

text \<open>
  Inside the \<open>try\<close> block of \<open>predict_next_year\<close> each statement runs only if the ones before
  it did not raise.
\<close>

definition then_do :: "py_exception + 'a \<Rightarrow> ('a \<Rightarrow> py_exception + 'b) \<Rightarrow> py_exception + 'b" where
  "then_do x f = (case x of Inl e \<Rightarrow> Inl e | Inr v \<Rightarrow> f v)"

subsection \<open>\<open>int(s)\<close> on a string\<close>






subsection \<open>Floating-point arithmetic\<close>

text \<open>
  A Python \<open>float\<close> is an IEEE 754 binary64 number. A finite float is modelled as the rational
  number it denotes (the sign of a zero is dropped: it changes no result below). An
  arithmetic operation returns its exact result rounded to the nearest float, a tie going to
  the even mantissa: the mantissa has 53 bits and the least exponent is \<open>-1074\<close>.
\<close>

text \<open>The exponent of a positive rational: \<open>2 powi ilog2 q \<le> q < 2 powi (ilog2 q + 1)\<close>.\<close>

definition ilog2 :: "rat \<Rightarrow> int" where
  "ilog2 q =
     (let (a, b) = quotient_of q;
          e = bitlen a - bitlen b
      in if 2 powi e \<le> q then e else e - 1)"

definition round_half_even :: "rat \<Rightarrow> int" where
  "round_half_even q =
     (let f = \<lfloor>q\<rfloor>;
          d = q - of_int f
      in if d < 1 / 2 then f else if 1 / 2 < d then f + 1 else if even f then f else f + 1)"

definition round_double :: "rat \<Rightarrow> rat" where
  "round_double q =
     (if q = 0 then 0
      else let e = max (ilog2 \<bar>q\<bar> - 52) (- 1074)
           in of_int (round_half_even (q / 2 powi e)) * 2 powi e)"

text \<open>
  A result that rounds to \<open>2 ^ 1024\<close> or beyond is not finite. Integer division and the
  conversion of an integer raise \<open>OverflowError\<close> then; float addition and multiplication
  give \<open>inf\<close> (and later \<open>nan\<close>) instead, which every later operation of \<open>predict_next_year\<close>
  hands on until \<open>int()\<close> refuses it with an exception. The handler of \<open>predict_next_year\<close>
  catches every \<open>Exception\<close> alike, so the model raises at the operation that overflows.
\<close>

definition to_float :: "rat \<Rightarrow> py_exception + rat" where
  "to_float q =
     (let r = round_double q
      in if r \<noteq> 0 \<and> 1024 \<le> ilog2 \<bar>r\<bar> then Inl OverflowError else Inr r)"

text \<open>\<open>a / b\<close> on two integers, \<open>float(i)\<close>, and \<open>x + y\<close>, \<open>x * y\<close>, \<open>x / y\<close> on floats.\<close>

definition py_truediv :: "int \<Rightarrow> int \<Rightarrow> py_exception + rat" where
  "py_truediv a b = (if b = 0 then Inl ZeroDivisionError else to_float (of_int a / of_int b))"

definition py_float :: "int \<Rightarrow> py_exception + rat" where
  "py_float i = to_float (of_int i)"

definition float_add :: "rat \<Rightarrow> rat \<Rightarrow> py_exception + rat" where
  "float_add x y = to_float (x + y)"

definition float_mul :: "rat \<Rightarrow> rat \<Rightarrow> py_exception + rat" where
  "float_mul x y = to_float (x * y)"

definition float_div :: "rat \<Rightarrow> rat \<Rightarrow> py_exception + rat" where
  "float_div x y = (if y = 0 then Inl ZeroDivisionError else to_float (x / y))"

text \<open>\<open>int(x)\<close> on a float cuts off the fraction, towards zero.\<close>

definition py_trunc :: "rat \<Rightarrow> int" where
  "py_trunc x = (if 0 \<le> x then \<lfloor>x\<rfloor> else \<lceil>x\<rceil>)"

text \<open>
  \<open>sum(xs)\<close> on floats starts from \<open>0\<close> and adds the items from left to right, rounding every
  partial sum. (From CPython 3.12 on \<open>sum\<close> also carries a compensation term, which can change
  the last bit of a sum of three or more floats; with one or two items both agree.)
\<close>

fun float_sum :: "rat \<Rightarrow> rat list \<Rightarrow> py_exception + rat" where
  "float_sum acc [] = Inr acc"
| "float_sum acc (x # xs) = then_do (float_add acc x) (\<lambda>s. float_sum s xs)"

definition py_sum :: "rat list \<Rightarrow> py_exception + rat" where
  "py_sum xs = float_sum 0 xs"

subsection \<open>\<open>predict_next_year\<close>\<close>

text \<open>
  The loop over \<open>range(1, len(counts))\<close>: a transition whose first count is positive appends
  its growth rate, any other transition is passed over.
\<close>

fun growth_rates :: "int list \<Rightarrow> py_exception + rat list" where
  "growth_rates (a # b # cs) =
     (if 0 < a
      then then_do (py_truediv (b - a) a) (\<lambda>growth_rate.
           then_do (growth_rates (b # cs)) (\<lambda>rates. Inr (growth_rate # rates)))
      else growth_rates (b # cs))"
| "growth_rates cs = Inr []"


definition growth_count :: "int list \<Rightarrow> rat list \<Rightarrow> py_exception + int" where
  "growth_count counts rates =
     then_do (py_sum rates) (\<lambda>rate_sum.
     then_do (py_float (int (length rates))) (\<lambda>n.
     then_do (float_div rate_sum n) (\<lambda>avg_growth_rate.
     then_do (float_add 1 avg_growth_rate) (\<lambda>factor.
     then_do (py_float (last counts)) (\<lambda>last_count.
     then_do (float_mul last_count factor) (\<lambda>next_count.
     Inr (py_trunc next_count)))))))"



subsection \<open>Year-count maps and the forecast of the specification\<close>





text \<open>The adjacent-year transitions: each count with the count of the next year.\<close>

definition transitions :: "int list \<Rightarrow> (int \<times> int) list" where
  "transitions counts = zip counts (tl counts)"





text \<open>
  The same quantities as the specification words them, in exact arithmetic: the growth
  rates, the floor of \<open>last_count * (1 + mean)\<close>, and the truncated average of the counts.
\<close>

definition exact_rates :: "int list \<Rightarrow> rat list" where
  "exact_rates counts =
     map (\<lambda>(a, b). (of_int b - of_int a) / of_int a)
       (filter (\<lambda>(a, b). 0 < a) (transitions counts))"

definition exact_forecast :: "int list \<Rightarrow> int" where
  "exact_forecast counts =
     \<lfloor>of_int (last counts)
        * (1 + sum_list (exact_rates counts) / of_nat (length (exact_rates counts)))\<rfloor>"

definition exact_average :: "int list \<Rightarrow> int" where
  "exact_average counts = py_trunc (of_int (sum_list counts) / of_nat (length counts))"

section \<open>Properties of the aggregation\<close>

lemma map_of_dict_set:
  "map_of (dict_set k v d) = (map_of d)(k \<mapsto> v)"
  by (induction d) (auto simp: fun_eq_iff)

lemma keys_dict_set:
  "fst ` set (dict_set k v d) = insert k (fst ` set d)"
proof -
  have "fst ` set (dict_set k v d) = dom (map_of (dict_set k v d))"
    by (simp add: dom_map_of_conv_image_fst)
  also have "\<dots> = insert k (dom (map_of d))"
    by (simp add: map_of_dict_set)
  also have "\<dots> = insert k (fst ` set d)"
    by (simp add: dom_map_of_conv_image_fst)
  finally show ?thesis .
qed

lemma distinct_dict_set:
  "distinct (map fst d) \<Longrightarrow> distinct (map fst (dict_set k v d))"
proof (induction d)
  case Nil
  then show ?case by simp
next
  case (Cons a d)
  obtain k' v' where a: "a = (k', v')" by (cases a)
  have "k' \<noteq> k \<Longrightarrow> k' \<notin> fst ` set (dict_set k v d)"
    using Cons.prems a by (simp add: keys_dict_set)
  then show ?case using Cons a by auto
qed

lemma sum_dict_set:
  "distinct (map fst d) \<Longrightarrow>
     sum_list (map snd (dict_set k (dict_get d k 0 + 1) d)) = sum_list (map snd d) + (1::int)"
proof (induction d)
  case Nil
  then show ?case by (simp add: dict_get_def)
next
  case (Cons a d)
  obtain k' v' where a: "a = (k', v')" by (cases a)
  show ?case
  proof (cases "k' = k")
    case True
    then show ?thesis using a by (simp add: dict_get_def)
  next
    case False
    have "dict_get (a # d) k 0 = dict_get d k (0::int)"
      using False a by (simp add: dict_get_def)
    then show ?thesis using Cons False a by simp
  qed
qed

lemma values_dict_set:
  "set (map snd (dict_set k v d)) \<subseteq> insert v (set (map snd d))"
proof (induction d)
  case Nil
  then show ?case by simp
next
  case (Cons a d)
  obtain k' v' where a: "a = (k', v')" by (cases a)
  show ?case
  proof (cases "k' = k")
    case True
    then show ?thesis using a by auto
  next
    case False
    then have "set (map snd (dict_set k v (a # d))) = insert v' (set (map snd (dict_set k v d)))"
      using a by simp
    then show ?thesis using Cons a by auto
  qed
qed

lemma dict_get_ge:
  "\<forall>c \<in> set (map snd d). (1::int) \<le> c \<Longrightarrow> 0 \<le> dict_get d k 0"
proof -
  assume h: "\<forall>c \<in> set (map snd d). (1::int) \<le> c"
  show ?thesis
  proof (cases "map_of d k")
    case None
    then show ?thesis by (simp add: dict_get_def)
  next
    case (Some v)
    then have "(k, v) \<in> set d" by (rule map_of_SomeD)
    then have "v \<in> set (map snd d)" by force
    then show ?thesis using h Some by (auto simp: dict_get_def)
  qed
qed

lemma count_years_distinct:
  "distinct (map fst d) \<Longrightarrow> distinct (map fst (count_years d papers))"
  by (induction papers arbitrary: d) (simp_all add: distinct_dict_set)

lemma count_years_total:
  "distinct (map fst d) \<Longrightarrow> total_count (count_years d papers) = total_count d + int (length papers)"
proof (induction papers arbitrary: d)
  case Nil
  then show ?case by simp
next
  case (Cons p papers)
  let ?d = "dict_set (year p) (dict_get d (year p) 0 + 1) d"
  have "total_count (count_years ?d papers) = total_count ?d + int (length papers)"
    using Cons by (simp add: distinct_dict_set)
  moreover have "total_count ?d = total_count d + 1"
    using Cons.prems by (simp add: total_count_def sum_dict_set)
  ultimately show ?case by simp
qed

lemma count_years_keys:
  "fst ` set (count_years d papers) = fst ` set d \<union> year ` set papers"
  by (induction papers arbitrary: d) (simp_all add: keys_dict_set)

lemma count_years_positive:
  "\<forall>c \<in> set (map snd d). 1 \<le> c \<Longrightarrow> \<forall>c \<in> set (map snd (count_years d papers)). 1 \<le> c"
proof (induction papers arbitrary: d)
  case Nil
  then show ?case by simp
next
  case (Cons p papers)
  let ?v = "dict_get d (year p) 0 + 1"
  have "1 \<le> ?v" using dict_get_ge [OF Cons.prems, of "year p"] by simp
  then have "\<forall>c \<in> set (map snd (dict_set (year p) ?v d)). 1 \<le> c"
    using Cons.prems values_dict_set [of "year p" ?v d] by blast
  then show ?case using Cons.IH by simp
qed

lemma map_raise_dict_item:
  "set ks \<subseteq> set (map fst d) \<Longrightarrow> \<exists>vs. map_raise (dict_item d) ks = Inr vs"
proof (induction ks)
  case Nil
  then show ?case by simp
next
  case (Cons k ks)
  then have "k \<in> fst ` set d" by simp
  then obtain v where "map_of d k = Some v"
    by (metis domD dom_map_of_conv_image_fst)
  then have "dict_item d k = Inr v" by (simp add: dict_item_def)
  moreover obtain vs where "map_raise (dict_item d) ks = Inr vs" using Cons by auto
  ultimately show ?case by simp
qed


lemma dict_get_dict_set:
  "dict_get (dict_set k v d) y dflt = (if y = k then v else dict_get d y dflt)"
  by (simp add: dict_get_def map_of_dict_set)

lemma count_years_get:
  "dict_get (count_years d papers) y 0 =
     dict_get d y 0 + int (length (filter (\<lambda>p. year p = y) papers))"
  by (induction papers arbitrary: d) (simp_all add: dict_get_dict_set)

lemma count_years_lookup:
  "map_of (count_years [] papers) y =
     (if y \<in> year ` set papers
      then Some (int (length (filter (\<lambda>p. year p = y) papers))) else None)"
proof (cases "y \<in> year ` set papers")
  case True
  then have "y \<in> fst ` set (count_years [] papers)"
    by (simp add: count_years_keys)
  then obtain v where v: "map_of (count_years [] papers) y = Some v"
    by (metis domD dom_map_of_conv_image_fst)
  then have "dict_get (count_years [] papers) y 0 = v"
    by (simp add: dict_get_def)
  moreover have "dict_get (count_years [] papers) y 0
      = int (length (filter (\<lambda>p. year p = y) papers))"
    unfolding count_years_get by (simp add: dict_get_def)
  ultimately show ?thesis using v True by simp
next
  case False
  then have "y \<notin> fst ` set (count_years [] papers)"
    by (simp add: count_years_keys)
  then have "map_of (count_years [] papers) y = None"
    by (simp add: map_of_eq_None_iff)
  then show ?thesis using False by simp
qed

lemma plot_paper_trend_result:
  "plot_paper_trend render papers conf_name = Inr (count_years [] papers)"
proof (cases "papers = []")
  case True
  then show ?thesis by (simp add: plot_paper_trend_def)
next
  case False
  let ?yc = "count_years [] papers"
  have "set (sort (map fst ?yc)) \<subseteq> set (map fst ?yc)" by simp
  then obtain counts where "map_raise (dict_item ?yc) (sort (map fst ?yc)) = Inr counts"
    using map_raise_dict_item by blast
  then show ?thesis using False
    by (simp add: plot_paper_trend_def Let_def split: render_outcome.split)
qed

section \<open>Claims about the aggregation\<close>

text \<open>
  Claim C6. The aggregation groups the paper records by their \<open>year\<close> field and counts
  the records of each year: a year is a key of the returned map exactly when some record
  has it, and its count is the number of records with that year. For records with the
  years 2021, 2021, 2022 the returned map is exactly \<open>{"2021": 2, "2022": 1}\<close>.
\<close>

theorem aggregator_groups_by_year:
  "(\<forall>y. map_of (count_years [] papers) y =
         (if y \<in> year ` set papers
          then Some (int (length (filter (\<lambda>p. year p = y) papers))) else None))
   \<and> plot_paper_trend render papers conf_name = Inr (count_years [] papers)
   \<and> (map year papers = [''2021'', ''2021'', ''2022''] \<longrightarrow>
        plot_paper_trend render papers conf_name = Inr [(''2021'', 2), (''2022'', 1)])"
proof -
  have "count_years [] papers = [(''2021'', 2), (''2022'', 1)]"
    if h: "map year papers = [''2021'', ''2021'', ''2022'']"
  proof -
    from h obtain a b c where abc: "papers = [a, b, c]"
      by (auto simp: map_eq_Cons_conv)
    with h have "year a = ''2021''" "year b = ''2021''" "year c = ''2022''" by simp_all
    then show ?thesis using abc by (simp add: dict_get_def)
  qed
  then show ?thesis
    using count_years_lookup [of papers] plot_paper_trend_result [of render papers conf_name]
    by simp
qed

theorem aggregator_groups_by_year_witness:
  "map year [example_paper ''2021'', example_paper ''2021'', example_paper ''2022'']
     = [''2021'', ''2021'', ''2022'']
   \<and> plot_paper_trend (\<lambda>years counts name. Rendered)
        [example_paper ''2021'', example_paper ''2021'', example_paper ''2022''] ''AAAI''
     = Inr [(''2021'', 2), (''2022'', 1)]
   \<and> map_of (count_years [] [example_paper ''2021'', example_paper ''2021'', example_paper ''2022''])
        ''2021'' = Some 2"
  using aggregator_groups_by_year
    [of "[example_paper ''2021'', example_paper ''2021'', example_paper ''2022'']"
        "\<lambda>years counts name. Rendered" "''AAAI''"]
  by (simp add: example_paper_def dict_get_def)

text \<open>
  Claim C8. For every list of paper records the aggregation returns a year-count map
  whose counts add up to the length of the list, in which every count is at least 1 and
  every key is the \<open>year\<close> field of some record of the list.
\<close>

theorem aggregator_invariants:
  "\<exists>year_count. plot_paper_trend render papers conf_name = Inr year_count
     \<and> total_count year_count = int (length papers)
     \<and> (\<forall>(y, c) \<in> set year_count. 1 \<le> c \<and> y \<in> year ` set papers)"
proof -
  let ?yc = "count_years [] papers"
  have "total_count ?yc = int (length papers)"
    using count_years_total [of "[]" papers] by (simp add: total_count_def)
  moreover have "\<forall>c \<in> set (map snd ?yc). 1 \<le> c"
    using count_years_positive [of "[]" papers] by simp
  moreover have "fst ` set ?yc = year ` set papers"
    by (simp add: count_years_keys)
  ultimately have "total_count ?yc = int (length papers)
     \<and> (\<forall>(y, c) \<in> set ?yc. 1 \<le> c \<and> y \<in> year ` set papers)"
    by force
  then show ?thesis using plot_paper_trend_result [of render papers conf_name] by simp
qed

theorem aggregator_invariants_witness:
  "plot_paper_trend (\<lambda>years counts name. Rendered)
     [example_paper ''2021'', example_paper ''2021'', example_paper ''2022''] ''AAAI''
     = Inr [(''2021'', 2), (''2022'', 1)]
   \<and> total_count [(''2021'', 2), (''2022'', 1)] = 3
   \<and> ''2021'' \<in> year ` set [example_paper ''2021'', example_paper ''2021'', example_paper ''2022'']"
  using aggregator_invariants
    [of "\<lambda>years counts name. Rendered"
        "[example_paper ''2021'', example_paper ''2021'', example_paper ''2022'']" "''AAAI''"]
  by (simp add: example_paper_def plot_paper_trend_result dict_get_def total_count_def)

text \<open>
  Claim C10. For every non-empty list of paper records \<open>plot_paper_trend\<close> returns the
  year-count map it has computed whatever the chart rendering does: when the rendering
  raises, the exception branch returns the same map as the normal branch.
\<close>

theorem trend_returns_map_on_render_failure:
  "papers \<noteq> [] \<Longrightarrow>
     plot_paper_trend (\<lambda>years counts name. RenderRaised e) papers conf_name
       = Inr (count_years [] papers)
     \<and> plot_paper_trend render papers conf_name
       = plot_paper_trend (\<lambda>years counts name. RenderRaised e) papers conf_name"
  by (simp add: plot_paper_trend_result)

theorem trend_returns_map_on_render_failure_witness:
  "[example_paper ''2021'', example_paper ''2022''] \<noteq> []
   \<and> plot_paper_trend (\<lambda>years counts name. RenderRaised RenderException)
        [example_paper ''2021'', example_paper ''2022''] ''AAAI''
     = Inr [(''2021'', 1), (''2022'', 1)]"
  using trend_returns_map_on_render_failure
    [of "[example_paper ''2021'', example_paper ''2022'']" RenderException "''AAAI''"]
  by (simp add: example_paper_def dict_get_def)

section \<open>Properties of the keyword analysis\<close>














text \<open>
  The title that the extraction gives to an entry without a title tag is one token, once
  the tables know its four characters as letters without case.
\<close>

lemma keywords_of_unknown_title:
  assumes "uni_lower ucd unknown_title = unknown_title"
    and "list_all (uni_alnum ucd) unknown_title"
  shows "extract_keywords ucd [titled_paper unknown_title] = [(unknown_title, 1)]"
proof -
  have l: "py_lower ucd unknown_title = unknown_title"
    using assms(1) by (simp add: py_lower_def is_ascii_def unknown_title_def)
  have w: "sub_non_word_space ucd unknown_title = unknown_title"
    using assms(2) by (simp add: sub_non_word_space_def is_word_char_def unknown_title_def)
  have s: "py_split unknown_title = [unknown_title]"
    by (simp add: py_split_def unknown_title_def is_space_def)
  have f: "unknown_title \<notin> set STOP_WORDS" "2 < length unknown_title"
    by (simp_all add: unknown_title_def STOP_WORDS_def ustr_def)
  show ?thesis
    using f by (simp add: extract_keywords_def titled_paper_def l w s dict_get_def)
qed

section \<open>Claims about the keyword analysis\<close>


section \<open>Properties of the extraction\<close>

lemma dropWhile_keeps:
  "x \<in> set xs \<Longrightarrow> \<not> P x \<Longrightarrow> x \<in> set (dropWhile P xs)"
  by (induction xs) auto

lemma in_set_nonempty: "x \<in> set xs \<Longrightarrow> xs \<noteq> []"
  by auto

lemma py_strip_nonempty:
  assumes "list_ex (\<lambda>c. \<not> is_space c) s"
  shows "py_strip s \<noteq> []"
proof -
  from assms obtain c where c: "c \<in> set s" "\<not> is_space c"
    by (auto simp: list_ex_iff)
  then have "c \<in> set (dropWhile is_space s)"
    by (rule dropWhile_keeps)
  then have "c \<in> set (rev (dropWhile is_space s))"
    by simp
  then have "c \<in> set (dropWhile is_space (rev (dropWhile is_space s)))"
    using c(2) by (rule dropWhile_keeps)
  then have "dropWhile is_space (rev (dropWhile is_space s)) \<noteq> []"
    by (rule in_set_nonempty)
  then show ?thesis
    unfolding py_strip_def rev_is_Nil_conv .
qed

lemma py_join_nonempty:
  "\<exists>x \<in> set xs. x \<noteq> [] \<Longrightarrow> py_join sep xs \<noteq> []"
  by (induction sep xs rule: py_join.induct) auto

lemma str_nat_nonempty: "str_nat n \<noteq> []"
  by (subst str_nat.simps) simp

lemma py_str_nonempty: "py_str i \<noteq> []"
  by (simp add: py_str_def str_nat_nonempty)

lemma conference_name_nonempty:
  "dict_item CONFERENCE_CONFIGS k = Inr conf_config \<Longrightarrow> name conf_config \<noteq> []"
  by (auto simp: dict_item_def CONFERENCE_CONFIGS_def split: if_splits)

lemma find_first_SomeD:
  assumes "find_first tree tag p = Some n"
  shows "n \<in> set (find_all tree tag p)" and "tag_name n = Some tag" and "p n"
proof -
  from assms obtain ns where "find_all tree tag p = n # ns"
    by (auto simp: find_first_def split: list.splits)
  then show n: "n \<in> set (find_all tree tag p)" by simp
  from n show "tag_name n = Some tag" and "p n"
    by (simp_all add: find_all_def)
qed

lemma first_of_filter:
  "(case filter P xs of [] \<Rightarrow> None | x # ys \<Rightarrow> Some x) = List.find P xs"
  by (induction xs) auto

lemma link_filter:
  "marker \<noteq> [] \<Longrightarrow> (tag_name n = Some ''a'' \<and> href_contains marker n) = is_link marker n"
  by (cases "get_attr n ''href''") (auto simp: is_link_def href_contains_def)

lemma find_first_link:
  assumes "marker \<noteq> []"
  shows "find_first entry ''a'' (href_contains marker) = List.find (is_link marker) (descendants entry)"
proof -
  have "(\<lambda>n. tag_name n = Some ''a'' \<and> href_contains marker n) = is_link marker"
    using link_filter [OF assms] by blast
  then show ?thesis
    by (simp add: find_first_def find_all_def first_of_filter)
qed

lemma find_None_iff_not_ex:
  "List.find P xs = None \<longleftrightarrow> \<not> list_ex P xs"
  by (auto simp: find_None_iff list_ex_iff)

lemma find_SomeD:
  "List.find P xs = Some x \<Longrightarrow> P x \<and> x \<in> set xs \<and> list_ex P xs"
  by (auto simp: find_Some_iff list_ex_iff)

lemma is_link_href:
  "is_link marker a \<Longrightarrow> \<exists>h. get_attr a ''href'' = Some h \<and> py_in marker h"
  by (cases "get_attr a ''href''") (auto simp: is_link_def)

lemma select_link_first:
  "select_link entry =
     (case List.find (is_link ''doi.org'') (descendants entry) of
        Some doi_link \<Rightarrow> tag_item doi_link ''href''
      | None \<Rightarrow>
          (case List.find (is_link ''dblp.org/rec/'') (descendants entry) of
             Some details_link \<Rightarrow> tag_item details_link ''href''
           | None \<Rightarrow> Inr []))"
proof -
  have a: "find_first entry ''a'' (href_contains ''doi.org'')
      = List.find (is_link ''doi.org'') (descendants entry)"
    by (rule find_first_link) simp
  have b: "find_first entry ''a'' (href_contains ''dblp.org/rec/'')
      = List.find (is_link ''dblp.org/rec/'') (descendants entry)"
    by (rule find_first_link) simp
  show ?thesis unfolding select_link_def a b by (rule refl)
qed

lemma select_link_total: "\<exists>l. select_link entry = Inr l"
proof (cases "List.find (is_link ''doi.org'') (descendants entry)")
  case (Some a)
  from find_SomeD [OF Some] have "is_link ''doi.org'' a" by (rule conjunct1)
  then obtain h where "get_attr a ''href'' = Some h"
    by (cases "get_attr a ''href''") (simp_all add: is_link_def)
  then show ?thesis using Some by (simp add: select_link_first tag_item_def)
next
  case None
  show ?thesis
  proof (cases "List.find (is_link ''dblp.org/rec/'') (descendants entry)")
    case (Some a)
    from find_SomeD [OF Some] have "is_link ''dblp.org/rec/'' a" by (rule conjunct1)
    then obtain h where "get_attr a ''href'' = Some h"
      by (cases "get_attr a ''href''") (simp_all add: is_link_def)
    then show ?thesis using Some None by (simp add: select_link_first tag_item_def)
  next
    case n2: None
    then show ?thesis using None by (simp add: select_link_first)
  qed
qed

lemma paper_of_entry_fields:
  "\<exists>p. paper_of_entry conf_config y entry = Inr p
     \<and> title p = entry_title entry \<and> authors p = entry_authors entry
     \<and> conference p = name conf_config \<and> year p = py_str y
     \<and> select_link entry = Inr (link p)"
proof -
  obtain l where "select_link entry = Inr l"
    using select_link_total by blast
  then show ?thesis by (simp add: paper_of_entry_def)
qed

lemma map_raise_Inr:
  "map_raise f xs = Inr ys \<Longrightarrow> list_all2 (\<lambda>x y. f x = Inr y) xs ys"
proof (induction xs arbitrary: ys)
  case Nil
  then show ?case by simp
next
  case (Cons x xs)
  then show ?case by (auto split: sum.splits)
qed

lemma map_raise_total:
  "\<forall>x \<in> set xs. \<exists>y. f x = Inr y \<Longrightarrow> \<exists>ys. map_raise f xs = Inr ys"
proof (induction xs)
  case Nil
  then show ?case by simp
next
  case (Cons x xs)
  then obtain y ys where "f x = Inr y" "map_raise f xs = Inr ys" by auto
  then show ?case by simp
qed

lemma well_formed_title:
  assumes "well_formed_entry entry"
  shows "entry_title entry \<noteq> []"
proof -
  from assms obtain t where t: "find_first entry ''span'' (matches_class ''title'') = Some t"
    and "has_text t"
    by (auto simp: well_formed_entry_def split: option.splits)
  then have "py_strip (get_text t) \<noteq> []"
    by (simp add: has_text_def py_strip_nonempty)
  then show ?thesis using t by (simp add: entry_title_def)
qed

lemma well_formed_authors:
  assumes "well_formed_entry entry"
  shows "entry_authors entry \<noteq> []"
proof -
  let ?name = "\<lambda>a. find_first a ''span'' (matches_attr ''itemprop'' ''name'')"
  from assms obtain a nt
    where a: "a \<in> set (find_all entry ''span'' (matches_attr ''itemprop'' ''author''))"
      and nt: "?name a = Some nt" and "has_text nt"
    by (auto simp: well_formed_entry_def list_ex_iff split: option.splits)
  then have ne: "py_strip (get_text nt) \<noteq> []"
    by (simp add: has_text_def py_strip_nonempty)
  let ?F = "\<lambda>author_tag. case ?name author_tag of
      Some name_tag \<Rightarrow> [py_strip (get_text name_tag)] | None \<Rightarrow> []"
  have "py_strip (get_text nt) \<in> set (?F a)"
    using nt by simp
  moreover have "?F a \<in> set (map ?F (find_all entry ''span'' (matches_attr ''itemprop'' ''author'')))"
    using a by simp
  ultimately have "py_strip (get_text nt) \<in> set (author_names entry)"
    unfolding author_names_def set_concat by blast
  then have "author_names entry \<noteq> []" and "py_join (ustr ''; '') (author_names entry) \<noteq> []"
    using ne py_join_nonempty by auto
  then show ?thesis by (simp add: entry_authors_def)
qed

lemma extract_papers_records:
  "\<exists>papers. extract_papers conf_config y soup = Inr papers
     \<and> list_all2 (\<lambda>entry p. paper_of_entry conf_config y entry = Inr p)
         (find_all soup ''li'' (matches_class ''entry inproceedings'')) papers"
proof -
  let ?entries = "find_all soup ''li'' (matches_class ''entry inproceedings'')"
  have "\<forall>x \<in> set ?entries. \<exists>p. paper_of_entry conf_config y x = Inr p"
    using paper_of_entry_fields by blast
  then obtain papers where p: "map_raise (paper_of_entry conf_config y) ?entries = Inr papers"
    using map_raise_total by blast
  then have "list_all2 (\<lambda>entry p. paper_of_entry conf_config y entry = Inr p) ?entries papers"
    by (rule map_raise_Inr)
  moreover have "extract_papers conf_config y soup = Inr papers"
    using p by (cases "?entries = []") (auto simp: extract_papers_def Let_def)
  ultimately show ?thesis by blast
qed

lemma get_paper_info_success:
  assumes "dict_item CONFERENCE_CONFIGS conf_key = Inr conf_config"
    and "http_get (format_year (url_pattern conf_config) y) = Inr resp"
    and "raise_for_status resp = Inr ()"
    and "html_parser (resp_text resp) = Inr soup"
    and "extract_papers conf_config y soup = Inr papers"
  shows "get_paper_info http_get html_parser conf_key y = Inr papers"
  using assms by (simp add: get_paper_info_def fetch_papers_def)

lemma get_paper_info_caught:
  assumes "dict_item CONFERENCE_CONFIGS conf_key = Inr conf_config"
    and "fetch_papers http_get html_parser conf_config y
           (format_year (url_pattern conf_config) y) = Inl e"
  shows "get_paper_info http_get html_parser conf_key y = Inr []"
  using assms by (simp add: get_paper_info_def)

section \<open>Claims about fetching and extraction\<close>

text \<open>
  Claim C3, as the specification states it, fails: an entry whose title tag is present
  but holds white space only (here a space and a no-break space) is an entry with a title
  and an author present, and its record has the empty title.
\<close>

theorem extractor_blank_title_counterexample:
  "find_all (example_page [blank_title_entry]) ''li'' (matches_class ''entry inproceedings'')
     = [blank_title_entry]
   \<and> has_title_and_author blank_title_entry
   \<and> get_paper_info (\<lambda>url. Inr \<lparr>status_code = 200, resp_text = []\<rparr>)
        (\<lambda>markup. Inr (example_page [blank_title_entry])) ''aaai'' 2020
       = Inr [\<lparr>title = [], authors = ustr ''Ada Lovelace'', conference = ''AAAI'',
                year = ''2020'', link = []\<rparr>]"
  by code_simp

text \<open>
  Claim C3, amended. For a page with K paper entries (the \<open>li\<close> tags of class
  \<open>entry inproceedings\<close>) the extraction returns exactly K paper records; when every entry
  is well formed in the sense that its title tag and the name tag of one of its authors
  hold text that is not only white space, every record has a non-empty title, authors,
  year and conference. After a successful fetch \<open>get_paper_info\<close> returns these records.
\<close>

theorem extractor_one_record_per_entry:
  assumes cfg: "dict_item CONFERENCE_CONFIGS conf_key = Inr conf_config"
  shows "\<exists>papers. extract_papers conf_config y soup = Inr papers
     \<and> length papers = length (find_all soup ''li'' (matches_class ''entry inproceedings''))
     \<and> ((\<forall>entry \<in> set (find_all soup ''li'' (matches_class ''entry inproceedings'')).
            well_formed_entry entry)
         \<longrightarrow> (\<forall>p \<in> set papers.
               title p \<noteq> [] \<and> authors p \<noteq> [] \<and> year p \<noteq> [] \<and> conference p \<noteq> []))
     \<and> (http_get (format_year (url_pattern conf_config) y) = Inr resp
          \<and> raise_for_status resp = Inr () \<and> html_parser (resp_text resp) = Inr soup
         \<longrightarrow> get_paper_info http_get html_parser conf_key y = Inr papers)"
proof -
  let ?entries = "find_all soup ''li'' (matches_class ''entry inproceedings'')"
  obtain papers where ex: "extract_papers conf_config y soup = Inr papers"
    and all2: "list_all2 (\<lambda>entry p. paper_of_entry conf_config y entry = Inr p) ?entries papers"
    using extract_papers_records by blast
  have len: "length papers = length ?entries"
    using all2 by (simp add: list_all2_lengthD)
  have fields: "title p \<noteq> [] \<and> authors p \<noteq> [] \<and> year p \<noteq> [] \<and> conference p \<noteq> []"
    if wf: "\<forall>entry \<in> set ?entries. well_formed_entry entry" and p: "p \<in> set papers" for p
  proof -
    from p obtain i where i: "i < length papers" "papers ! i = p"
      by (auto simp: in_set_conv_nth)
    let ?e = "?entries ! i"
    have pe: "paper_of_entry conf_config y ?e = Inr p"
      using all2 i by (auto simp: list_all2_conv_all_nth)
    have "?e \<in> set ?entries"
      using i len by simp
    then have w: "well_formed_entry ?e"
      using wf by blast
    obtain q where q: "paper_of_entry conf_config y ?e = Inr q"
      and f: "title q = entry_title ?e" "authors q = entry_authors ?e"
        "conference q = name conf_config" "year q = py_str y"
      using paper_of_entry_fields [of conf_config y ?e] by blast
    from q pe have "q = p" by simp
    then show ?thesis
      using f w well_formed_title well_formed_authors py_str_nonempty
        conference_name_nonempty [OF cfg]
      by simp
  qed
  have gpi: "get_paper_info http_get html_parser conf_key y = Inr papers"
    if "http_get (format_year (url_pattern conf_config) y) = Inr resp"
      and "raise_for_status resp = Inr ()" and "html_parser (resp_text resp) = Inr soup"
    using cfg that ex by (simp add: get_paper_info_def fetch_papers_def)
  show ?thesis
    by (rule exI [of _ papers]) (use ex len fields gpi in blast)
qed

lemma example_page_entries:
  "length (find_all (example_page [example_entry [''https://doi.org/10.1/x''], example_entry []])
     ''li'' (matches_class ''entry inproceedings'')) = 2"
  by code_simp

lemma example_page_well_formed:
  "list_all well_formed_entry
     (find_all (example_page [example_entry [''https://doi.org/10.1/x''], example_entry []])
        ''li'' (matches_class ''entry inproceedings''))"
  by code_simp

lemma aaai_configured: "dict_item CONFERENCE_CONFIGS ''aaai'' = Inr aaai_config"
  by (simp add: dict_item_def CONFERENCE_CONFIGS_def aaai_config_def)

theorem extractor_one_record_per_entry_witness:
  "dict_item CONFERENCE_CONFIGS ''aaai'' = Inr aaai_config
   \<and> list_all well_formed_entry
       (find_all (example_page [example_entry [''https://doi.org/10.1/x''], example_entry []])
          ''li'' (matches_class ''entry inproceedings''))
   \<and> (\<exists>papers.
        extract_papers aaai_config 2020
          (example_page [example_entry [''https://doi.org/10.1/x''], example_entry []]) = Inr papers
        \<and> length papers = 2
        \<and> list_all (\<lambda>p. title p \<noteq> [] \<and> authors p \<noteq> [] \<and> year p \<noteq> [] \<and> conference p \<noteq> [])
            papers)"
proof -
  let ?soup = "example_page [example_entry [''https://doi.org/10.1/x''], example_entry []]"
  from extractor_one_record_per_entry [where y = 2020 and soup = ?soup, OF aaai_configured]
  obtain papers where "extract_papers aaai_config 2020 ?soup = Inr papers"
    and "length papers = length (find_all ?soup ''li'' (matches_class ''entry inproceedings''))"
    and "(\<forall>entry \<in> set (find_all ?soup ''li'' (matches_class ''entry inproceedings'')).
            well_formed_entry entry)
         \<longrightarrow> (\<forall>p \<in> set papers.
               title p \<noteq> [] \<and> authors p \<noteq> [] \<and> year p \<noteq> [] \<and> conference p \<noteq> [])"
    by blast
  then have "extract_papers aaai_config 2020 ?soup = Inr papers \<and> length papers = 2
      \<and> list_all (\<lambda>p. title p \<noteq> [] \<and> authors p \<noteq> [] \<and> year p \<noteq> [] \<and> conference p \<noteq> []) papers"
    using example_page_entries example_page_well_formed
    by (simp add: list_all_iff)
  then show ?thesis
    using aaai_configured example_page_well_formed by blast
qed

text \<open>
  Claim C4. The link of an entry is the \<open>href\<close> of the first DOI-style link below the
  entry when there is one, also when a registry-style link is present; otherwise the
  \<open>href\<close> of the first registry-style link when there is one; otherwise the empty string.
  The paper record of the entry carries this link.
\<close>

theorem link_selection_prefers_doi:
  "\<exists>l. select_link entry = Inr l
     \<and> (has_link ''doi.org'' entry \<longrightarrow>
          (\<exists>a. List.find (is_link ''doi.org'') (descendants entry) = Some a
             \<and> get_attr a ''href'' = Some l \<and> py_in ''doi.org'' l))
     \<and> (\<not> has_link ''doi.org'' entry \<and> has_link ''dblp.org/rec/'' entry \<longrightarrow>
          (\<exists>a. List.find (is_link ''dblp.org/rec/'') (descendants entry) = Some a
             \<and> get_attr a ''href'' = Some l \<and> py_in ''dblp.org/rec/'' l))
     \<and> (\<not> has_link ''doi.org'' entry \<and> \<not> has_link ''dblp.org/rec/'' entry \<longrightarrow> l = [])
     \<and> (\<exists>p. paper_of_entry conf_config y entry = Inr p \<and> link p = l)"
proof -
  obtain p where p: "paper_of_entry conf_config y entry = Inr p"
    and lp: "select_link entry = Inr (link p)"
    using paper_of_entry_fields [of conf_config y entry] by blast
  have rec: "(\<exists>a. List.find (is_link m) (descendants entry) = Some a
        \<and> get_attr a ''href'' = Some h \<and> py_in m h)"
    if "List.find (is_link m) (descendants entry) = Some a" and "tag_item a ''href'' = Inr h"
    for m a h
  proof -
    from find_SomeD [OF that(1)] have "is_link m a" by (rule conjunct1)
    then obtain h' where h': "get_attr a ''href'' = Some h'" "py_in m h'"
      using is_link_href by blast
    with that(2) have "h' = h" by (simp add: tag_item_def)
    with h' that(1) show ?thesis by blast
  qed
  show ?thesis
  proof (cases "List.find (is_link ''doi.org'') (descendants entry)")
    case (Some a)
    then have has: "has_link ''doi.org'' entry"
      using find_SomeD has_link_def by metis
    have "tag_item a ''href'' = Inr (link p)"
      using lp Some by (simp add: select_link_first)
    from rec [OF Some this] has lp p show ?thesis by blast
  next
    case None
    then have no: "\<not> has_link ''doi.org'' entry"
      by (simp add: has_link_def find_None_iff_not_ex)
    show ?thesis
    proof (cases "List.find (is_link ''dblp.org/rec/'') (descendants entry)")
      case (Some a)
      then have has: "has_link ''dblp.org/rec/'' entry"
        using find_SomeD has_link_def by metis
      have "tag_item a ''href'' = Inr (link p)"
        using lp Some None by (simp add: select_link_first)
      from rec [OF Some this] has no lp p show ?thesis by blast
    next
      case n2: None
      then have no2: "\<not> has_link ''dblp.org/rec/'' entry"
        by (simp add: has_link_def find_None_iff_not_ex)
      have "link p = []"
        using lp None n2 by (simp add: select_link_first)
      with no no2 lp p show ?thesis by auto
    qed
  qed
qed

lemma example_links_both:
  "has_link ''doi.org''
     (example_entry [''https://dblp.org/rec/conf/aaai/X20'', ''https://doi.org/10.1/x''])"
  "select_link (example_entry [''https://dblp.org/rec/conf/aaai/X20'', ''https://doi.org/10.1/x''])
     = Inr ''https://doi.org/10.1/x''"
  by code_simp+

lemma example_links_rec:
  "\<not> has_link ''doi.org'' (example_entry [''https://dblp.org/rec/conf/aaai/X20''])"
  "has_link ''dblp.org/rec/'' (example_entry [''https://dblp.org/rec/conf/aaai/X20''])"
  "select_link (example_entry [''https://dblp.org/rec/conf/aaai/X20''])
     = Inr ''https://dblp.org/rec/conf/aaai/X20''"
  by code_simp+

lemma example_links_none:
  "\<not> has_link ''doi.org'' (example_entry [''https://example.org/x''])"
  "\<not> has_link ''dblp.org/rec/'' (example_entry [''https://example.org/x''])"
  by code_simp+

theorem link_selection_prefers_doi_witness:
  "has_link ''doi.org''
     (example_entry [''https://dblp.org/rec/conf/aaai/X20'', ''https://doi.org/10.1/x''])
   \<and> select_link (example_entry [''https://dblp.org/rec/conf/aaai/X20'', ''https://doi.org/10.1/x''])
       = Inr ''https://doi.org/10.1/x''
   \<and> py_in ''doi.org'' ''https://doi.org/10.1/x''
   \<and> \<not> has_link ''doi.org'' (example_entry [''https://dblp.org/rec/conf/aaai/X20''])
   \<and> has_link ''dblp.org/rec/'' (example_entry [''https://dblp.org/rec/conf/aaai/X20''])
   \<and> select_link (example_entry [''https://dblp.org/rec/conf/aaai/X20''])
       = Inr ''https://dblp.org/rec/conf/aaai/X20''
   \<and> \<not> has_link ''doi.org'' (example_entry [''https://example.org/x''])
   \<and> \<not> has_link ''dblp.org/rec/'' (example_entry [''https://example.org/x''])
   \<and> select_link (example_entry [''https://example.org/x'']) = Inr []"
proof -
  let ?both = "example_entry [''https://dblp.org/rec/conf/aaai/X20'', ''https://doi.org/10.1/x'']"
  let ?none = "example_entry [''https://example.org/x'']"
  from link_selection_prefers_doi [of ?both] example_links_both(1)
  obtain l where "select_link ?both = Inr l" and "py_in ''doi.org'' l"
    by blast
  then have a: "py_in ''doi.org'' ''https://doi.org/10.1/x''"
    using example_links_both(2) by simp
  from link_selection_prefers_doi [of ?none] example_links_none
  have b: "select_link ?none = Inr []"
    by blast
  show ?thesis
    using a b example_links_both example_links_rec example_links_none by blast
qed

text \<open>
  Claim C7. For a configured conference key and any year, whenever the body of the
  \<open>try\<close> block of \<open>get_paper_info\<close> raises (the request fails, \<open>raise_for_status\<close> raises on
  the status, or the parser raises), \<open>get_paper_info\<close> returns the empty list, which is
  also what it returns for a page fetched successfully that holds no entry.
\<close>

theorem fetcher_returns_empty_on_exception:
  assumes cfg: "dict_item CONFERENCE_CONFIGS conf_key = Inr conf_config"
  shows "(fetch_papers http_get html_parser conf_config y
            (format_year (url_pattern conf_config) y) = Inl e
          \<longrightarrow> get_paper_info http_get html_parser conf_key y = Inr [])
     \<and> (http_get (format_year (url_pattern conf_config) y) = Inl e
          \<longrightarrow> get_paper_info http_get html_parser conf_key y = Inr [])
     \<and> (http_get (format_year (url_pattern conf_config) y) = Inr resp
          \<and> raise_for_status resp = Inl e
          \<longrightarrow> get_paper_info http_get html_parser conf_key y = Inr [])
     \<and> (http_get (format_year (url_pattern conf_config) y) = Inr resp
          \<and> raise_for_status resp = Inr () \<and> html_parser (resp_text resp) = Inl e
          \<longrightarrow> get_paper_info http_get html_parser conf_key y = Inr [])
     \<and> (http_get (format_year (url_pattern conf_config) y) = Inr resp
          \<and> raise_for_status resp = Inr () \<and> html_parser (resp_text resp) = Inr soup
          \<and> find_all soup ''li'' (matches_class ''entry inproceedings'') = []
          \<longrightarrow> get_paper_info http_get html_parser conf_key y = Inr [])"
proof -
  let ?url = "format_year (url_pattern conf_config) y"
  have caught: "get_paper_info http_get html_parser conf_key y = Inr []"
    if "fetch_papers http_get html_parser conf_config y ?url = Inl e'" for e'
    using get_paper_info_caught [OF cfg that] .
  have c2: "fetch_papers http_get html_parser conf_config y ?url = Inl e"
    if "http_get ?url = Inl e"
    using that by (simp add: fetch_papers_def)
  have c3: "fetch_papers http_get html_parser conf_config y ?url = Inl e"
    if "http_get ?url = Inr resp" "raise_for_status resp = Inl e"
    using that by (simp add: fetch_papers_def)
  have c4: "fetch_papers http_get html_parser conf_config y ?url = Inl e"
    if "http_get ?url = Inr resp" "raise_for_status resp = Inr ()"
      "html_parser (resp_text resp) = Inl e"
    using that by (simp add: fetch_papers_def)
  have c5: "get_paper_info http_get html_parser conf_key y = Inr []"
    if "http_get ?url = Inr resp" "raise_for_status resp = Inr ()"
      "html_parser (resp_text resp) = Inr soup"
      "find_all soup ''li'' (matches_class ''entry inproceedings'') = []"
  proof -
    have "extract_papers conf_config y soup = Inr []"
      using that(4) by (simp add: extract_papers_def)
    with cfg that(1-3) show ?thesis
      by (simp add: get_paper_info_def fetch_papers_def)
  qed
  show ?thesis using caught c2 c3 c4 c5 by blast
qed

theorem fetcher_returns_empty_on_exception_witness:
  "dict_item CONFERENCE_CONFIGS ''aaai'' = Inr aaai_config
   \<and> get_paper_info (\<lambda>url. Inl ConnectionError) (\<lambda>markup. Inr (example_page [])) ''aaai'' 2020
       = Inr []
   \<and> raise_for_status \<lparr>status_code = 404, resp_text = []\<rparr> = Inl HTTPError
   \<and> get_paper_info (\<lambda>url. Inr \<lparr>status_code = 404, resp_text = []\<rparr>)
        (\<lambda>markup. Inr (example_page [])) ''aaai'' 2020 = Inr []
   \<and> get_paper_info (\<lambda>url. Inr \<lparr>status_code = 200, resp_text = []\<rparr>)
        (\<lambda>markup. Inl FeatureNotFound) ''aaai'' 2020 = Inr []
   \<and> get_paper_info (\<lambda>url. Inr \<lparr>status_code = 200, resp_text = []\<rparr>)
        (\<lambda>markup. Inr (example_page [])) ''aaai'' 2020 = Inr []"
proof -
  have s404: "raise_for_status \<lparr>status_code = 404, resp_text = []\<rparr> = Inl HTTPError"
    by (simp add: raise_for_status_def)
  have s200: "raise_for_status \<lparr>status_code = 200, resp_text = []\<rparr> = Inr ()"
    by (simp add: raise_for_status_def)
  have empty: "find_all (example_page []) ''li'' (matches_class ''entry inproceedings'') = []"
    by (simp add: example_page_def find_all_def)
  have a: "get_paper_info (\<lambda>url. Inl ConnectionError) (\<lambda>markup. Inr (example_page [])) ''aaai'' 2020
      = Inr []"
    using fetcher_returns_empty_on_exception
      [where http_get = "\<lambda>url. Inl ConnectionError" and y = 2020 and e = ConnectionError
         and html_parser = "\<lambda>markup. Inr (example_page [])", OF aaai_configured]
    by simp
  have b: "get_paper_info (\<lambda>url. Inr \<lparr>status_code = 404, resp_text = []\<rparr>)
        (\<lambda>markup. Inr (example_page [])) ''aaai'' 2020 = Inr []"
    using fetcher_returns_empty_on_exception
      [where http_get = "\<lambda>url. Inr \<lparr>status_code = 404, resp_text = []\<rparr>" and y = 2020
         and html_parser = "\<lambda>markup. Inr (example_page [])"
         and resp = "\<lparr>status_code = 404, resp_text = []\<rparr>" and e = HTTPError,
       OF aaai_configured] s404
    by simp
  have c: "get_paper_info (\<lambda>url. Inr \<lparr>status_code = 200, resp_text = []\<rparr>)
        (\<lambda>markup. Inl FeatureNotFound) ''aaai'' 2020 = Inr []"
    using fetcher_returns_empty_on_exception
      [where http_get = "\<lambda>url. Inr \<lparr>status_code = 200, resp_text = []\<rparr>" and y = 2020
         and html_parser = "\<lambda>markup. Inl FeatureNotFound"
         and resp = "\<lparr>status_code = 200, resp_text = []\<rparr>" and e = FeatureNotFound,
       OF aaai_configured] s200
    by simp
  have d: "get_paper_info (\<lambda>url. Inr \<lparr>status_code = 200, resp_text = []\<rparr>)
        (\<lambda>markup. Inr (example_page [])) ''aaai'' 2020 = Inr []"
    using fetcher_returns_empty_on_exception
      [where http_get = "\<lambda>url. Inr \<lparr>status_code = 200, resp_text = []\<rparr>" and y = 2020
         and html_parser = "\<lambda>markup. Inr (example_page [])"
         and resp = "\<lparr>status_code = 200, resp_text = []\<rparr>" and soup = "example_page []",
       OF aaai_configured] s200 empty
    by simp
  show ?thesis using aaai_configured s404 a b c d by blast
qed


section \<open>Properties of the rounding\<close>

lemma powi_nat: "0 \<le> n \<Longrightarrow> (2::rat) powi n = 2 ^ nat n"
  by (simp add: power_int_def)

lemma powi_pos: "0 < (2::rat) powi n"
  by simp

lemma powi_split: "(2::rat) powi (m + n) = 2 powi m * 2 powi n"
  by (simp add: power_int_add)

lemma powi_mono: "m \<le> n \<Longrightarrow> (2::rat) powi m \<le> 2 powi n"
  by (rule power_int_increasing) simp_all

lemma bitlen_rat_bounds:
  assumes "0 < a"
  shows "(2::rat) powi (bitlen a - 1) \<le> of_int a" and "(of_int a :: rat) < 2 powi bitlen a"
proof -
  have ge1: "1 \<le> bitlen a"
    using assms bitlen_eq_zero_iff [of a] bitlen_nonneg [of a] by linarith
  from bitlen_bounds [OF assms]
  have lo: "2 ^ nat (bitlen a - 1) \<le> a" and hi: "a < 2 ^ nat (bitlen a)"
    by simp_all
  from lo have "(of_int (2 ^ nat (bitlen a - 1)) :: rat) \<le> of_int a"
    by (simp only: of_int_le_iff)
  then show "(2::rat) powi (bitlen a - 1) \<le> of_int a"
    using ge1 by (simp add: powi_nat)
  from hi have "(of_int a :: rat) < of_int (2 ^ nat (bitlen a))"
    by (simp only: of_int_less_iff)
  then show "(of_int a :: rat) < 2 powi bitlen a"
    using ge1 by (simp add: powi_nat)
qed

lemma ilog2_bounds:
  assumes "0 < q"
  shows "2 powi ilog2 q \<le> q" and "q < 2 powi (ilog2 q + 1)"
proof -
  obtain a b where ab: "quotient_of q = (a, b)"
    by (cases "quotient_of q")
  have b: "0 < b"
    using ab by (rule quotient_of_denom_pos)
  have q: "q = of_int a / of_int b"
    using ab by (rule quotient_of_div)
  have a: "0 < a"
    using assms b unfolding q by (simp add: zero_less_divide_iff)
  let ?e = "bitlen a - bitlen b"
  have eq1: "(2::rat) powi (?e + 1) * 2 powi (bitlen b - 1) = 2 powi bitlen a"
    unfolding powi_split [symmetric] by simp
  have eq2: "(2::rat) powi (?e - 1) * 2 powi bitlen b = 2 powi (bitlen a - 1)"
    unfolding powi_split [symmetric] by simp
  have "of_int a < (2::rat) powi (?e + 1) * 2 powi (bitlen b - 1)"
    unfolding eq1 using a by (rule bitlen_rat_bounds)
  also have "\<dots> \<le> 2 powi (?e + 1) * of_int b"
    using bitlen_rat_bounds(1) [OF b] by (simp add: mult_left_mono)
  finally have up: "q < 2 powi (?e + 1)"
    unfolding q using b by (simp add: pos_divide_less_eq)
  have "(2::rat) powi (?e - 1) * of_int b < 2 powi (?e - 1) * 2 powi bitlen b"
    using bitlen_rat_bounds(2) [OF b] by (simp add: mult_strict_left_mono)
  also have "\<dots> \<le> of_int a"
    unfolding eq2 using a by (rule bitlen_rat_bounds)
  finally have lo: "2 powi (?e - 1) < q"
    unfolding q using b by (simp add: pos_less_divide_eq)
  have il: "ilog2 q = (if 2 powi ?e \<le> q then ?e else ?e - 1)"
    by (simp add: ilog2_def ab)
  show "2 powi ilog2 q \<le> q"
    unfolding il using lo by auto
  show "q < 2 powi (ilog2 q + 1)"
    unfolding il using up by auto
qed

lemma ilog2_less:
  assumes "0 < q" and "q < 2 powi k"
  shows "ilog2 q < k"
proof (rule ccontr)
  assume "\<not> ilog2 q < k"
  then have "(2::rat) powi k \<le> 2 powi ilog2 q"
    by (simp add: powi_mono)
  also have "\<dots> \<le> q"
    using assms(1) by (rule ilog2_bounds)
  finally show False using assms(2) by simp
qed

lemma ilog2_ge:
  assumes "2 powi k \<le> q"
  shows "k \<le> ilog2 q"
proof (rule ccontr)
  assume "\<not> k \<le> ilog2 q"
  then have le: "ilog2 q + 1 \<le> k" by simp
  have pos: "0 < q"
    using powi_pos [of k] assms by linarith
  have "q < 2 powi (ilog2 q + 1)"
    using pos by (rule ilog2_bounds)
  also have "\<dots> \<le> 2 powi k"
    using le by (rule powi_mono)
  finally show False using assms by simp
qed

lemma round_half_even_ge: "of_int k \<le> q \<Longrightarrow> k \<le> round_half_even q"
proof -
  assume "of_int k \<le> q"
  then have "k \<le> \<lfloor>q\<rfloor>" by (simp add: le_floor_iff)
  then show ?thesis by (simp add: round_half_even_def Let_def)
qed

lemma round_half_even_le: "q \<le> of_int k \<Longrightarrow> round_half_even q \<le> k"
proof (cases "q = of_int k")
  case True
  then show ?thesis by (simp add: round_half_even_def)
next
  case False
  assume "q \<le> of_int k"
  with False have "q < of_int k" by simp
  then have "\<lfloor>q\<rfloor> < k" by (simp add: floor_less_iff)
  then show ?thesis by (simp add: round_half_even_def Let_def)
qed

lemma round_double_nonzero:
  "q \<noteq> 0 \<Longrightarrow>
     round_double q =
       of_int (round_half_even (q / 2 powi max (ilog2 \<bar>q\<bar> - 52) (- 1074)))
         * 2 powi max (ilog2 \<bar>q\<bar> - 52) (- 1074)"
  by (simp add: round_double_def Let_def)

lemma grid_point:
  assumes "e \<le> j"
  shows "of_int m * (2::rat) powi j / 2 powi e = of_int (m * 2 ^ nat (j - e))"
proof -
  have "(2::rat) powi j = 2 powi (j - e) * 2 powi e"
    unfolding powi_split [symmetric] by simp
  then have "of_int m * (2::rat) powi j / 2 powi e = of_int m * 2 powi (j - e)"
    by simp
  also have "\<dots> = of_int (m * 2 ^ nat (j - e))"
    using assms by (simp add: powi_nat)
  finally show ?thesis .
qed

lemma round_double_le_grid:
  assumes le: "q \<le> of_int m * 2 powi j"
    and ex: "q \<noteq> 0 \<Longrightarrow> max (ilog2 \<bar>q\<bar> - 52) (- 1074) \<le> j"
  shows "round_double q \<le> of_int m * 2 powi j"
proof (cases "q = 0")
  case True
  then show ?thesis using le by (simp add: round_double_def)
next
  case False
  let ?e = "max (ilog2 \<bar>q\<bar> - 52) (- 1074)"
  have ej: "?e \<le> j" using ex [OF False] .
  have "q / 2 powi ?e \<le> of_int m * 2 powi j / 2 powi ?e"
    using le by (simp add: divide_right_mono)
  then have "q / 2 powi ?e \<le> of_int (m * 2 ^ nat (j - ?e))"
    unfolding grid_point [OF ej] .
  then have "round_half_even (q / 2 powi ?e) \<le> m * 2 ^ nat (j - ?e)"
    by (rule round_half_even_le)
  then have "(of_int (round_half_even (q / 2 powi ?e)) :: rat) \<le> of_int (m * 2 ^ nat (j - ?e))"
    by (simp only: of_int_le_iff)
  then have "of_int (round_half_even (q / 2 powi ?e)) * 2 powi ?e
      \<le> of_int (m * 2 ^ nat (j - ?e)) * (2::rat) powi ?e"
    by (simp add: mult_right_mono)
  also have "\<dots> = of_int m * 2 powi j"
    unfolding grid_point [OF ej, symmetric] by simp
  finally show ?thesis
    unfolding round_double_nonzero [OF False] .
qed

lemma round_double_ge_grid:
  assumes le: "of_int m * 2 powi j \<le> q"
    and ex: "q \<noteq> 0 \<Longrightarrow> max (ilog2 \<bar>q\<bar> - 52) (- 1074) \<le> j"
  shows "of_int m * 2 powi j \<le> round_double q"
proof (cases "q = 0")
  case True
  then show ?thesis using le by (simp add: round_double_def)
next
  case False
  let ?e = "max (ilog2 \<bar>q\<bar> - 52) (- 1074)"
  have ej: "?e \<le> j" using ex [OF False] .
  have "of_int m * 2 powi j / 2 powi ?e \<le> q / 2 powi ?e"
    using le by (simp add: divide_right_mono)
  then have "of_int (m * 2 ^ nat (j - ?e)) \<le> q / 2 powi ?e"
    unfolding grid_point [OF ej] .
  then have "m * 2 ^ nat (j - ?e) \<le> round_half_even (q / 2 powi ?e)"
    by (rule round_half_even_ge)
  then have "(of_int (m * 2 ^ nat (j - ?e)) :: rat) \<le> of_int (round_half_even (q / 2 powi ?e))"
    by (simp only: of_int_le_iff)
  then have "of_int (m * 2 ^ nat (j - ?e)) * (2::rat) powi ?e
      \<le> of_int (round_half_even (q / 2 powi ?e)) * 2 powi ?e"
    by (simp add: mult_right_mono)
  then have step: "of_int (m * 2 ^ nat (j - ?e)) * (2::rat) powi ?e
      \<le> of_int (round_half_even (q / 2 powi ?e)) * 2 powi ?e" .
  have "of_int m * 2 powi j = of_int (m * 2 ^ nat (j - ?e)) * (2::rat) powi ?e"
    unfolding grid_point [OF ej, symmetric] by simp
  also note step
  finally show ?thesis
    unfolding round_double_nonzero [OF False] .
qed

lemma exponent_le:
  assumes "q \<noteq> 0" and "\<bar>q\<bar> < 2 powi (j + 53)" and "- 1074 \<le> j"
  shows "max (ilog2 \<bar>q\<bar> - 52) (- 1074) \<le> j"
proof -
  have "ilog2 \<bar>q\<bar> < j + 53"
    using assms(1,2) by (intro ilog2_less) simp_all
  then show ?thesis using assms(3) by simp
qed

lemma round_double_nonneg: "0 \<le> q \<Longrightarrow> 0 \<le> round_double q"
proof (cases "q = 0")
  case True
  then show ?thesis by (simp add: round_double_def)
next
  case False
  assume "0 \<le> q"
  then have "of_int 0 \<le> q / 2 powi max (ilog2 \<bar>q\<bar> - 52) (- 1074)"
    by simp
  then have "0 \<le> round_half_even (q / 2 powi max (ilog2 \<bar>q\<bar> - 52) (- 1074))"
    by (rule round_half_even_ge)
  then show ?thesis
    unfolding round_double_nonzero [OF False] by simp
qed

lemma round_double_ge_int:
  assumes "of_int k \<le> q" and "\<bar>q\<bar> < 2 ^ 53"
  shows "of_int k \<le> round_double q"
proof -
  have "of_int k * 2 powi 0 \<le> round_double q"
  proof (rule round_double_ge_grid)
    show "of_int k * 2 powi 0 \<le> q" using assms(1) by simp
    show "max (ilog2 \<bar>q\<bar> - 52) (- 1074) \<le> 0" if "q \<noteq> 0"
      using that assms(2) by (intro exponent_le) simp_all
  qed
  then show ?thesis by simp
qed

lemma round_double_le_int:
  assumes "q \<le> of_int k" and "\<bar>q\<bar> < 2 ^ 53"
  shows "round_double q \<le> of_int k"
proof -
  have "round_double q \<le> of_int k * 2 powi 0"
  proof (rule round_double_le_grid)
    show "q \<le> of_int k * 2 powi 0" using assms(1) by simp
    show "max (ilog2 \<bar>q\<bar> - 52) (- 1074) \<le> 0" if "q \<noteq> 0"
      using that assms(2) by (intro exponent_le) simp_all
  qed
  then show ?thesis by simp
qed

lemma round_double_int:
  assumes "\<bar>k\<bar> < 2 ^ 53"
  shows "round_double (of_int k) = of_int k"
proof -
  have "\<bar>of_int k :: rat\<bar> < 2 ^ 53"
    using assms by (metis of_int_abs of_int_less_numeral_power_cancel_iff)
  then show ?thesis
    using round_double_ge_int [of k "of_int k"] round_double_le_int [of "of_int k" k]
    by simp
qed

lemma round_double_two_53: "round_double (- 9007199254740992) = - 9007199254740992"
  by code_simp

lemma round_double_ge_neg:
  assumes "- of_int k \<le> q" and "0 \<le> k" and "k \<le> 9007199254740992"
  shows "- of_int k \<le> round_double q"
proof (cases "0 \<le> q")
  case True
  then have "0 \<le> round_double q" by (rule round_double_nonneg)
  moreover have "(0::rat) \<le> of_int k" using assms(2) by simp
  ultimately show ?thesis by linarith
next
  case False
  then have neg: "q < 0" by simp
  have qk: "\<bar>q\<bar> \<le> of_int k"
    using assms(1) neg by simp
  have "(of_int k :: rat) \<le> of_int 9007199254740992"
    using assms(3) by (simp only: of_int_le_iff)
  then have k53: "(of_int k :: rat) \<le> 9007199254740992"
    by simp
  show ?thesis
  proof (cases "\<bar>q\<bar> < 2 ^ 53")
    case True
    have "of_int (- k) \<le> round_double q"
      using assms(1) True by (intro round_double_ge_int) simp_all
    then show ?thesis by simp
  next
    case False
    then have "\<bar>q\<bar> = 9007199254740992" and "of_int k = (9007199254740992 :: rat)"
      using qk k53 by simp_all
    then have "q = - 9007199254740992" and "of_int k = (9007199254740992 :: rat)"
      using neg by simp_all
    then show ?thesis
      by (simp add: round_double_two_53)
  qed
qed

lemma round_double_ge_minus_one: "- 1 \<le> q \<Longrightarrow> - 1 \<le> round_double q"
  using round_double_ge_neg [of 1 q] by simp


lemma round_double_ge_neg_two_53:
  assumes "- 9007199254740993 \<le> q"
  shows "- 9007199254740992 \<le> round_double q"
proof (cases "- 9007199254740992 \<le> q")
  case True
  then show ?thesis
    using round_double_ge_neg [of 9007199254740992 q] by simp
next
  case False
  then have lt: "q < - 9007199254740992" by simp
  then have nz: "q \<noteq> 0" and abs: "\<bar>q\<bar> = - q" by simp_all
  have "(2::rat) powi 53 \<le> \<bar>q\<bar>"
    using lt abs by simp
  then have lo: "53 \<le> ilog2 \<bar>q\<bar>"
    by (rule ilog2_ge)
  have "\<bar>q\<bar> < 2 powi 54"
    using assms abs by simp
  then have "ilog2 \<bar>q\<bar> < 54"
    using nz by (intro ilog2_less) simp_all
  with lo have e: "max (ilog2 \<bar>q\<bar> - 52) (- 1074) = 1"
    by simp
  have fl: "\<lfloor>q / 2\<rfloor> = - 4503599627370497"
    by (rule floor_unique) (use assms lt in simp_all)
  have d: "\<not> q / 2 - of_int (- 4503599627370497) < 1 / 2"
    using assms by simp
  have "round_half_even (q / 2) = - 4503599627370496"
    unfolding round_half_even_def Let_def fl using d by simp
  then show ?thesis
    unfolding round_double_nonzero [OF nz] e by simp
qed

lemma round_double_ge_two_53:
  assumes "9007199254740992 \<le> q"
  shows "9007199254740992 \<le> round_double q"
proof -
  have pos: "0 < q" and nz: "q \<noteq> 0" and abs: "\<bar>q\<bar> = q"
    using assms by simp_all
  have "(2::rat) powi 53 \<le> q"
    using assms by simp
  then have lo: "53 \<le> ilog2 q"
    by (rule ilog2_ge)
  have "of_int 1 * 2 powi ilog2 q \<le> round_double q"
  proof (rule round_double_ge_grid)
    show "of_int 1 * 2 powi ilog2 q \<le> q"
      using ilog2_bounds(1) [OF pos] by simp
    show "max (ilog2 \<bar>q\<bar> - 52) (- 1074) \<le> ilog2 q"
      unfolding abs using lo by simp
  qed
  moreover have "(2::rat) powi 53 \<le> 2 powi ilog2 q"
    using lo by (rule powi_mono)
  ultimately show ?thesis by simp
qed

subsection \<open>The steps of the forecast\<close>

lemma to_float_Inr: "to_float q = Inr r \<Longrightarrow> r = round_double q"
  by (auto simp: to_float_def Let_def split: if_splits)

lemma then_do_Inr: "then_do x f = Inr r \<Longrightarrow> \<exists>v. x = Inr v \<and> f v = Inr r"
  by (cases x) (simp_all add: then_do_def)

lemma float_sum_ge:
  assumes "float_sum acc rs = Inr s" and "\<forall>r \<in> set rs. - 1 \<le> r"
    and "- of_int (min k 9007199254740992) \<le> acc" and "0 \<le> k"
  shows "- of_int (min (k + int (length rs)) 9007199254740992) \<le> s"
  using assms
proof (induction rs arbitrary: acc k)
  case Nil
  then show ?case by simp
next
  case (Cons r rs)
  from Cons.prems(1) obtain s1 where s1: "float_add acc r = Inr s1" and rest: "float_sum s1 rs = Inr s"
    using then_do_Inr by fastforce
  have s1r: "s1 = round_double (acc + r)"
    using s1 by (simp add: float_add_def to_float_Inr)
  have r: "- 1 \<le> r" using Cons.prems(2) by simp
  have step: "- of_int (min (k + 1) 9007199254740992) \<le> s1"
  proof (cases "k + 1 \<le> 9007199254740992")
    case True
    then have "- of_int (k + 1) \<le> acc + r"
      using Cons.prems(3) r by simp
    then have "- of_int (k + 1) \<le> round_double (acc + r)"
      using True Cons.prems(4) by (intro round_double_ge_neg) simp_all
    then show ?thesis using True s1r by simp
  next
    case False
    then have "- 9007199254740993 \<le> acc + r"
      using Cons.prems(3) r by simp
    then have "- 9007199254740992 \<le> round_double (acc + r)"
      by (rule round_double_ge_neg_two_53)
    then show ?thesis using False s1r by simp
  qed
  have rs_ok: "\<forall>r \<in> set rs. - 1 \<le> r" using Cons.prems(2) by simp
  have k1: "0 \<le> k + 1" using Cons.prems(4) by simp
  from Cons.IH [OF rest rs_ok step k1]
  have "- of_int (min (k + 1 + int (length rs)) 9007199254740992) \<le> s" .
  then show ?case by (simp add: add.assoc add.commute)
qed

lemma mean_ge_minus_one:
  assumes rates: "\<forall>r \<in> set rates. - 1 \<le> r" and ne: "rates \<noteq> []"
    and tot: "py_sum rates = Inr tot"
    and n: "py_float (int (length rates)) = Inr n"
    and m: "float_div tot n = Inr m"
  shows "- 1 \<le> m"
proof -
  let ?N = "int (length rates)"
  let ?B = "min ?N 9007199254740992"
  have N1: "1 \<le> ?N" using ne by (cases rates) simp_all
  have "- of_int (min (0 + ?N) 9007199254740992) \<le> tot"
    using tot rates unfolding py_sum_def by (rule float_sum_ge) simp_all
  then have t: "- of_int ?B \<le> tot" by simp
  have nr: "n = round_double (of_int ?N)"
    using n by (simp add: py_float_def to_float_Inr)
  have nB: "of_int ?B \<le> n"
  proof (cases "?N < 9007199254740992")
    case True
    then have "\<bar>?N\<bar> < 2 ^ 53" by simp
    then have "round_double (of_int ?N) = of_int ?N"
      by (rule round_double_int)
    then show ?thesis using True nr by simp
  next
    case False
    then have "(of_int 9007199254740992 :: rat) \<le> of_int ?N"
      by (simp only: of_int_le_iff)
    then have "9007199254740992 \<le> round_double (of_int ?N)"
      by (intro round_double_ge_two_53) simp
    then show ?thesis using False nr by simp
  qed
  have B1: "(1::rat) \<le> of_int ?B"
    using N1 by simp
  have npos: "0 < n" using nB B1 by linarith
  have "- n \<le> tot" using t nB by linarith
  then have "- 1 \<le> tot / n"
    using npos by (simp add: pos_le_divide_eq)
  moreover have "m = round_double (tot / n)"
    using m npos by (simp add: float_div_def to_float_Inr)
  ultimately show ?thesis
    using round_double_ge_minus_one by simp
qed

lemma growth_rates_ge:
  "growth_rates counts = Inr rates \<Longrightarrow> \<forall>c \<in> set counts. 0 \<le> c \<Longrightarrow> \<forall>r \<in> set rates. - 1 \<le> r"
proof (induction counts arbitrary: rates rule: growth_rates.induct)
  case (1 a b cs)
  show ?case
  proof (cases "0 < a")
    case True
    from "1.prems"(1) True obtain r rs where r: "py_truediv (b - a) a = Inr r"
      and rs: "growth_rates (b # cs) = Inr rs" and rates: "rates = r # rs"
      by (auto dest!: then_do_Inr)
    have "r = round_double (of_int (b - a) / of_int a)"
      using r True by (simp add: py_truediv_def to_float_Inr)
    moreover have "- 1 \<le> (of_int (b - a) / of_int a :: rat)"
      using True "1.prems"(2) by (simp add: pos_le_divide_eq)
    ultimately have "- 1 \<le> r"
      using round_double_ge_minus_one by simp
    moreover have "\<forall>r \<in> set rs. - 1 \<le> r"
      using "1.IH"(1) [OF True rs] "1.prems"(2) by simp
    ultimately show ?thesis using rates by simp
  next
    case False
    then show ?thesis
      using "1.IH"(2) [OF False] "1.prems" by simp
  qed
qed simp_all

lemma growth_rates_short: "growth_rates counts = Inr rates \<Longrightarrow> rates \<noteq> [] \<Longrightarrow> counts \<noteq> []"
  by auto

lemma py_trunc_nonneg: "0 \<le> x \<Longrightarrow> py_trunc x = \<lfloor>x\<rfloor> \<and> 0 \<le> py_trunc x"
  by (simp add: py_trunc_def)

lemma growth_count_steps:
  assumes "growth_count counts rates = Inr p"
  obtains tot n m f lc nc where "py_sum rates = Inr tot"
    and "py_float (int (length rates)) = Inr n" and "float_div tot n = Inr m"
    and "float_add 1 m = Inr f" and "py_float (last counts) = Inr lc"
    and "float_mul lc f = Inr nc" and "p = py_trunc nc"
  using assms unfolding growth_count_def
  by (auto dest!: then_do_Inr)

lemma product_nonneg:
  assumes "- 1 \<le> m" and "0 \<le> c" and "float_add 1 m = Inr f" and "py_float c = Inr lc"
    and "float_mul lc f = Inr nc"
  shows "0 \<le> nc"
proof -
  have "f = round_double (1 + m)"
    using assms(3) by (simp add: float_add_def to_float_Inr)
  then have f: "0 \<le> f"
    using assms(1) by (simp add: round_double_nonneg)
  have "lc = round_double (of_int c)"
    using assms(4) by (simp add: py_float_def to_float_Inr)
  then have lc: "0 \<le> lc"
    using assms(2) by (simp add: round_double_nonneg)
  have "nc = round_double (lc * f)"
    using assms(5) by (simp add: float_mul_def to_float_Inr)
  then show ?thesis
    using f lc by (simp add: round_double_nonneg)
qed

lemma growth_count_nonneg:
  assumes "\<forall>r \<in> set rates. - 1 \<le> r" and "rates \<noteq> []" and "0 \<le> last counts"
    and "growth_count counts rates = Inr p"
  shows "0 \<le> p"
proof -
  from assms(4) obtain tot n m f lc nc where st: "py_sum rates = Inr tot"
    "py_float (int (length rates)) = Inr n" "float_div tot n = Inr m"
    "float_add 1 m = Inr f" "py_float (last counts) = Inr lc"
    "float_mul lc f = Inr nc" "p = py_trunc nc"
    by (rule growth_count_steps)
  have "- 1 \<le> m"
    using assms(1,2) st(1,2,3) by (rule mean_ge_minus_one)
  then have "0 \<le> nc"
    using assms(3) st(4,5,6) by (rule product_nonneg)
  then show ?thesis
    using st(7) py_trunc_nonneg by simp
qed










lemma to_float_error: "to_float q = Inl e \<Longrightarrow> e = OverflowError"
  by (auto simp: to_float_def Let_def split: if_splits)

lemma growth_rates_no_zero_division: "growth_rates counts \<noteq> Inl ZeroDivisionError"
proof (induction counts rule: growth_rates.induct)
  case (1 a b cs)
  show ?case
  proof (cases "0 < a")
    case True
    have "py_truediv (b - a) a \<noteq> Inl ZeroDivisionError"
      using True to_float_error by (fastforce simp: py_truediv_def)
    then show ?thesis
      using True "1.IH"(1) [OF True]
      by (auto simp: then_do_def split: sum.splits)
  next
    case False
    then show ?thesis using "1.IH"(2) by simp
  qed
qed simp_all

lemma growth_rates_none:
  "list_all (\<lambda>(a, b). a \<le> 0) (transitions counts) \<Longrightarrow> growth_rates counts = Inr []"
proof (induction counts rule: growth_rates.induct)
  case (1 a b cs)
  then show ?case by (simp add: transitions_def)
qed simp_all












end
